theory Spec2Isabelle
  imports Complex_Main "HOL-Library.Multiset"
begin

section \<open>JavaScript values\<close>

subsection \<open>Numbers\<close>

text \<open>
  A JavaScript \<^verbatim>\<open>number\<close> is a finite value, \<^verbatim>\<open>Infinity\<close>, \<^verbatim>\<open>-Infinity\<close> or \<^verbatim>\<open>NaN\<close>.
  Finite values are exact rationals here: rounding to 64 bits is not modelled, and neither
  is the sign of zero (every zero divisor of the modelled code is a count, a sum that starts
  at \<^verbatim>\<open>0\<close> or an absolute value, hence \<^verbatim>\<open>+0\<close>).
\<close>

datatype jsnum = Fin rat | PInf | NInf | NaN

instantiation jsnum :: "{zero, one, plus, uminus, minus, times, abs, inverse}"
begin

definition zero_jsnum :: jsnum where
  "zero_jsnum = Fin 0"

definition one_jsnum :: jsnum where
  "one_jsnum = Fin 1"

fun plus_jsnum :: "jsnum \<Rightarrow> jsnum \<Rightarrow> jsnum" where
  "plus_jsnum NaN y = NaN"
| "plus_jsnum x NaN = NaN"
| "plus_jsnum PInf NInf = NaN"
| "plus_jsnum NInf PInf = NaN"
| "plus_jsnum PInf y = PInf"
| "plus_jsnum x PInf = PInf"
| "plus_jsnum NInf y = NInf"
| "plus_jsnum x NInf = NInf"
| "plus_jsnum (Fin a) (Fin b) = Fin (a + b)"

fun uminus_jsnum :: "jsnum \<Rightarrow> jsnum" where
  "uminus_jsnum (Fin a) = Fin (- a)"
| "uminus_jsnum PInf = NInf"
| "uminus_jsnum NInf = PInf"
| "uminus_jsnum NaN = NaN"

definition minus_jsnum :: "jsnum \<Rightarrow> jsnum \<Rightarrow> jsnum" where
  "minus_jsnum x y = x + (- y)"

fun times_jsnum :: "jsnum \<Rightarrow> jsnum \<Rightarrow> jsnum" where
  "times_jsnum NaN y = NaN"
| "times_jsnum x NaN = NaN"
| "times_jsnum (Fin a) (Fin b) = Fin (a * b)"
| "times_jsnum (Fin a) PInf = (if a = 0 then NaN else if 0 < a then PInf else NInf)"
| "times_jsnum (Fin a) NInf = (if a = 0 then NaN else if 0 < a then NInf else PInf)"
| "times_jsnum PInf (Fin b) = (if b = 0 then NaN else if 0 < b then PInf else NInf)"
| "times_jsnum NInf (Fin b) = (if b = 0 then NaN else if 0 < b then NInf else PInf)"
| "times_jsnum PInf PInf = PInf"
| "times_jsnum PInf NInf = NInf"
| "times_jsnum NInf PInf = NInf"
| "times_jsnum NInf NInf = PInf"

fun abs_jsnum :: "jsnum \<Rightarrow> jsnum" where
  "abs_jsnum (Fin a) = Fin \<bar>a\<bar>"
| "abs_jsnum PInf = PInf"
| "abs_jsnum NInf = PInf"
| "abs_jsnum NaN = NaN"

fun divide_jsnum :: "jsnum \<Rightarrow> jsnum \<Rightarrow> jsnum" where
  "divide_jsnum NaN y = NaN"
| "divide_jsnum x NaN = NaN"
| "divide_jsnum (Fin a) (Fin b) =
     (if b \<noteq> 0 then Fin (a / b)
      else if a = 0 then NaN else if 0 < a then PInf else NInf)"
| "divide_jsnum (Fin a) PInf = Fin 0"
| "divide_jsnum (Fin a) NInf = Fin 0"
| "divide_jsnum PInf (Fin b) = (if 0 \<le> b then PInf else NInf)"
| "divide_jsnum NInf (Fin b) = (if 0 \<le> b then NInf else PInf)"
| "divide_jsnum PInf y = NaN"
| "divide_jsnum NInf y = NaN"

definition inverse_jsnum :: "jsnum \<Rightarrow> jsnum" where
  "inverse_jsnum x = divide (Fin 1) x"

instance ..

end

text \<open>Addition is associative and commutative, so sums do not depend on the order.\<close>

lemma zero_jsnum [simp]: "(0::jsnum) = Fin 0"
  by (simp add: zero_jsnum_def)

lemma one_jsnum [simp]: "(1::jsnum) = Fin 1"
  by (simp add: one_jsnum_def)

lemma jsnum_add_commute: "x + y = y + x" for x y :: jsnum
  by (cases x; cases y; simp)

lemma jsnum_add_assoc: "(x + y) + z = x + (y + z)" for x y z :: jsnum
  by (cases x; cases y; cases z; simp)

lemma jsnum_add_zero: "Fin 0 + x = x"
  by (cases x; simp)

instance jsnum :: comm_monoid_add
proof
  fix x y z :: jsnum
  show "x + y + z = x + (y + z)"
    by (rule jsnum_add_assoc)
  show "x + y = y + x"
    by (rule jsnum_add_commute)
  show "0 + x = x"
    by (simp add: jsnum_add_zero)
qed

lemma fin_zero_plus [simp]: "Fin 0 + a = a" "a + Fin 0 = a"
  using add_0_left [of a] add_0_right [of a] by (simp_all only: zero_jsnum)

text \<open>The relational operators: every comparison with \<^verbatim>\<open>NaN\<close> is false.\<close>

fun js_lt :: "jsnum \<Rightarrow> jsnum \<Rightarrow> bool" where
  "js_lt NaN y = False"
| "js_lt x NaN = False"
| "js_lt (Fin a) (Fin b) = (a < b)"
| "js_lt (Fin a) PInf = True"
| "js_lt NInf (Fin b) = True"
| "js_lt NInf PInf = True"
| "js_lt x y = False"

definition js_le :: "jsnum \<Rightarrow> jsnum \<Rightarrow> bool" where
  "js_le x y = (x \<noteq> NaN \<and> y \<noteq> NaN \<and> \<not> js_lt y x)"

definition js_gt :: "jsnum \<Rightarrow> jsnum \<Rightarrow> bool" where
  "js_gt x y = js_lt y x"

definition js_ge :: "jsnum \<Rightarrow> jsnum \<Rightarrow> bool" where
  "js_ge x y = js_le y x"

text \<open>\<^verbatim>\<open>Math.min\<close> and \<^verbatim>\<open>Math.max\<close> of two numbers.\<close>

definition Math_min :: "jsnum \<Rightarrow> jsnum \<Rightarrow> jsnum" where
  "Math_min x y = (if x = NaN \<or> y = NaN then NaN else if js_lt y x then y else x)"

definition Math_max :: "jsnum \<Rightarrow> jsnum \<Rightarrow> jsnum" where
  "Math_max x y = (if x = NaN \<or> y = NaN then NaN else if js_lt x y then y else x)"

text \<open>Counters (\<^verbatim>\<open>count++\<close>, \<^verbatim>\<open>length\<close>) are naturals; they enter arithmetic as numbers.\<close>

definition num :: "nat \<Rightarrow> jsnum" where
  "num n = Fin (of_nat n)"

subsection \<open>Truthiness and defaults\<close>

text \<open>
  \<^verbatim>\<open>0\<close> and \<^verbatim>\<open>NaN\<close> are falsy numbers, the empty string is the falsy string,
  \<^verbatim>\<open>null\<close> and \<^verbatim>\<open>undefined\<close> (\<open>None\<close>) are falsy.
\<close>

definition truthy_num :: "jsnum \<Rightarrow> bool" where
  "truthy_num x = (x \<noteq> Fin 0 \<and> x \<noteq> NaN)"

definition truthy_numopt :: "jsnum option \<Rightarrow> bool" where
  "truthy_numopt v = (case v of None \<Rightarrow> False | Some x \<Rightarrow> truthy_num x)"

definition truthy_str :: "string option \<Rightarrow> bool" where
  "truthy_str v = (case v of None \<Rightarrow> False | Some s \<Rightarrow> s \<noteq> [])"

definition or_num :: "jsnum option \<Rightarrow> jsnum \<Rightarrow> jsnum" where
  \<comment> \<open>\<^verbatim>\<open>v || d\<close> for \<^verbatim>\<open>v: number | null\<close>\<close>
  "or_num v d = (case v of None \<Rightarrow> d | Some x \<Rightarrow> if truthy_num x then x else d)"

subsection \<open>Exceptions\<close>

datatype error = TypeError | RangeError

text \<open>A callback that may throw, mapped or folded over an array: the first throw aborts.\<close>

fun mapE :: "('a \<Rightarrow> error + 'b) \<Rightarrow> 'a list \<Rightarrow> error + 'b list" where
  "mapE f [] = Inr []"
| "mapE f (x # xs) =
     (case f x of
        Inl e \<Rightarrow> Inl e
      | Inr y \<Rightarrow> (case mapE f xs of Inl e \<Rightarrow> Inl e | Inr ys \<Rightarrow> Inr (y # ys)))"

fun foldE :: "('b \<Rightarrow> 'a \<Rightarrow> error + 'b) \<Rightarrow> 'b \<Rightarrow> 'a list \<Rightarrow> error + 'b" where
  "foldE f acc [] = Inr acc"
| "foldE f acc (x # xs) =
     (case f acc x of Inl e \<Rightarrow> Inl e | Inr acc' \<Rightarrow> foldE f acc' xs)"

text \<open>
  \<^verbatim>\<open>xs.reduce(f)\<close> with no initial value: the first element seeds the fold, and an empty
  array throws \<^verbatim>\<open>TypeError: Reduce of empty array with no initial value\<close>.
\<close>

definition reduce1 :: "('a \<Rightarrow> 'a \<Rightarrow> 'a) \<Rightarrow> 'a list \<Rightarrow> error + 'a" where
  "reduce1 f xs = (case xs of [] \<Rightarrow> Inl TypeError | x # rest \<Rightarrow> Inr (foldl f x rest))"

text \<open>\<^verbatim>\<open>xs[i]\<close>: \<^verbatim>\<open>undefined\<close> out of range.\<close>

definition index :: "'a list \<Rightarrow> nat \<Rightarrow> 'a option" where
  "index xs i = (if i < length xs then Some (xs ! i) else None)"

text \<open>
  \<^verbatim>\<open>xs.sort(cmp)\<close>: the elements in an order where \<^verbatim>\<open>cmp(a, b) > 0\<close> puts \<open>a\<close> after
  \<open>b\<close>, equal elements keeping their order. (With a comparator that is not consistent,
  JavaScript leaves the order to the implementation; this is one such order.)
\<close>

fun insert_by :: "('a \<Rightarrow> 'a \<Rightarrow> jsnum) \<Rightarrow> 'a \<Rightarrow> 'a list \<Rightarrow> 'a list" where
  "insert_by cmp x [] = [x]"
| "insert_by cmp x (y # ys) =
     (if js_gt (cmp x y) (Fin 0) then y # insert_by cmp x ys else x # y # ys)"

definition sort_by :: "('a \<Rightarrow> 'a \<Rightarrow> jsnum) \<Rightarrow> 'a list \<Rightarrow> 'a list" where
  "sort_by cmp xs = foldr (insert_by cmp) xs []"

text \<open>
  An object used as a dictionary: its entries in insertion order, keys distinct.
  \<open>update_key k f\<close> is \<^verbatim>\<open>acc[k] = f(acc[k])\<close> for a key that is present, and
  \<open>upsert k d f\<close> is \<^verbatim>\<open>if (!acc[k]) acc[k] = d; acc[k] = f(acc[k])\<close> (every stored value
  of the modelled code is truthy: an object, or a count that is at least 1).
\<close>

definition update_key :: "'k \<Rightarrow> ('v \<Rightarrow> 'v) \<Rightarrow> ('k \<times> 'v) list \<Rightarrow> ('k \<times> 'v) list" where
  "update_key k f kvs = map (\<lambda>(k', v). if k' = k then (k', f v) else (k', v)) kvs"

definition upsert :: "'k \<Rightarrow> 'v \<Rightarrow> ('v \<Rightarrow> 'v) \<Rightarrow> ('k \<times> 'v) list \<Rightarrow> ('k \<times> 'v) list" where
  "upsert k d f kvs =
     (case map_of kvs k of
        None \<Rightarrow> kvs @ [(k, f d)]
      | Some v \<Rightarrow> update_key k f kvs)"

text \<open>
  \<open>update_first P f\<close> is \<^verbatim>\<open>const x = xs.find(P); if (x) { f(x) }\<close> for an array of objects,
  \<open>f\<close> mutating the object found.
\<close>

fun update_first :: "('a \<Rightarrow> bool) \<Rightarrow> ('a \<Rightarrow> 'a) \<Rightarrow> 'a list \<Rightarrow> 'a list" where
  "update_first P f [] = []"
| "update_first P f (x # xs) = (if P x then f x # xs else x # update_first P f xs)"

section \<open>The record model\<close>

text \<open>
  \<^verbatim>\<open>interface Transaction\<close>. A string field is \<open>None\<close> when the CSV line was too short
  (\<^verbatim>\<open>undefined\<close>); the two customer-facing fields are \<open>None\<close> when \<^verbatim>\<open>null\<close>. The fields
  \<^verbatim>\<open>id\<close> and \<^verbatim>\<open>type\<close> are \<open>txn_id\<close> and \<open>txn_type\<close> here.
\<close>

record Transaction =
  txn_id :: "string option"
  txn_type :: "string option"
  source :: "string option"
  amount :: jsnum
  fee :: jsnum
  net :: jsnum
  currency :: "string option"
  created :: "string option"
  availableOn :: "string option"
  description :: "string option"
  customerFacingAmount :: "jsnum option"
  customerFacingCurrency :: "string option"
  transfer :: "string option"
  transferDate :: "string option"

section \<open>Library functions\<close>

text \<open>
  The components call \<^verbatim>\<open>date-fns\<close>, the \<^verbatim>\<open>Date\<close> constructor and a few built-in functions
  on strings. None of them is part of the repository. Parsing, formatting and the string
  functions are the fields of a parameter \<open>L\<close> of every function that uses them, and
  nothing is assumed about them except what a theorem states. A date is its time value in
  milliseconds, \<open>None\<close> for an \<^verbatim>\<open>Invalid Date\<close>; \<open>fmt L p ms\<close> is the text \<^verbatim>\<open>format\<close>
  gives a valid date under the pattern \<open>p\<close>.
\<close>

record libs =
  parseISO :: "string option \<Rightarrow> int option"
  newDate :: "string option \<Rightarrow> int option"
  fmt :: "string \<Rightarrow> int \<Rightarrow> string"
  getHours :: "int \<Rightarrow> nat"
  localeCompare :: "string \<Rightarrow> string \<Rightarrow> jsnum"
  toUpperCase :: "string \<Rightarrow> string"
  parseFloat :: "string option \<Rightarrow> jsnum"

text \<open>\<^verbatim>\<open>format(date, pattern)\<close> throws \<^verbatim>\<open>RangeError: Invalid time value\<close> on an invalid date.\<close>

definition format :: "libs \<Rightarrow> int option \<Rightarrow> string \<Rightarrow> error + string" where
  "format L d p = (case d of None \<Rightarrow> Inl RangeError | Some ms \<Rightarrow> Inr (fmt L p ms))"

definition getTime :: "int option \<Rightarrow> jsnum" where
  "getTime d = (case d of None \<Rightarrow> NaN | Some ms \<Rightarrow> Fin (of_int ms))"

text \<open>
  \<^verbatim>\<open>differenceInMinutes(left, right)\<close> and \<^verbatim>\<open>differenceInHours(left, right)\<close> of
  \<^verbatim>\<open>date-fns\<close>: the milliseconds from \<open>right\<close> to \<open>left\<close>, divided by the milliseconds
  of the unit and rounded towards zero (\<^verbatim>\<open>Math.trunc\<close>); \<^verbatim>\<open>NaN\<close> when one of the dates
  is invalid.
\<close>

definition trunc_div :: "int \<Rightarrow> int \<Rightarrow> int" where
  "trunc_div x u = (if 0 \<le> x then x div u else - ((- x) div u))"

definition differenceIn :: "int \<Rightarrow> int option \<Rightarrow> int option \<Rightarrow> jsnum" where
  "differenceIn u left right =
     (case left of
        None \<Rightarrow> NaN
      | Some a \<Rightarrow> (case right of None \<Rightarrow> NaN | Some b \<Rightarrow> Fin (of_int (trunc_div (a - b) u))))"

definition differenceInMinutes :: "int option \<Rightarrow> int option \<Rightarrow> jsnum" where
  "differenceInMinutes left right = differenceIn 60000 left right"

definition differenceInHours :: "int option \<Rightarrow> int option \<Rightarrow> jsnum" where
  "differenceInHours left right = differenceIn 3600000 left right"

section \<open>ProcessingEfficiency\<close>

definition calculateProcessingTime :: "libs \<Rightarrow> Transaction \<Rightarrow> jsnum" where
  "calculateProcessingTime L t =
     (if \<not> truthy_str (created t) \<or> \<not> truthy_str (availableOn t) then Fin 0
      else differenceInMinutes (parseISO L (availableOn t)) (parseISO L (created t)))"


text \<open>\<^verbatim>\<open>const intervals = [5, 15, 30, 60, 120, 'More']\<close>\<close>

datatype interval = IvNum rat | IvStr string

definition intervals :: "interval list" where
  "intervals = [IvNum 5, IvNum 15, IvNum 30, IvNum 60, IvNum 120, IvStr ''More'']"

definition truthy_interval :: "interval \<Rightarrow> bool" where
  "truthy_interval i = (case i of IvNum b \<Rightarrow> b \<noteq> 0 | IvStr s \<Rightarrow> s \<noteq> [])"

definition intervalOf :: "jsnum \<Rightarrow> interval" where
  \<comment> \<open>\<^verbatim>\<open>intervals.find(i => typeof i === 'number' && time <= i) || 'More'\<close>\<close>
  "intervalOf time =
     (case find (\<lambda>i. case i of IvNum b \<Rightarrow> js_le time (Fin b) | IvStr s \<Rightarrow> False) intervals of
        None \<Rightarrow> IvStr ''More''
      | Some i \<Rightarrow> if truthy_interval i then i else IvStr ''More'')"

definition distribution :: "jsnum list \<Rightarrow> (interval \<times> nat) list" where
  \<comment> \<open>\<^verbatim>\<open>acc[interval] = (acc[interval] || 0) + 1\<close>\<close>
  "distribution tms = foldl (\<lambda>acc time. upsert (intervalOf time) 0 Suc acc) [] tms"

definition distributionData :: "jsnum list \<Rightarrow> nat list" where
  \<comment> \<open>the data of the chart: \<^verbatim>\<open>intervals.map(i => distribution[i] || 0)\<close>\<close>
  "distributionData tms =
     map (\<lambda>i. case map_of (distribution tms) i of None \<Rightarrow> 0 | Some c \<Rightarrow> if c \<noteq> 0 then c else 0)
       intervals"

definition fastProcessing :: "jsnum list \<Rightarrow> nat" where
  "fastProcessing tms = length (filter (\<lambda>time. js_le time (Fin 15)) tms)"

definition medianTime :: "jsnum list \<Rightarrow> jsnum option" where
  \<comment> \<open>\<^verbatim>\<open>processingTimes.sort((a, b) => a - b)[Math.floor(processingTimes.length / 2)]\<close>\<close>
  "medianTime tms = index (sort_by (\<lambda>a b. a - b) tms) (length tms div 2)"

section \<open>ExchangeRateAnalysis\<close>

record ExchangeRateData =
  date :: string
  rate :: jsnum
  volume :: jsnum
  rawDate :: "int option"
  count :: nat

definition calculateRateMetrics_mean :: "jsnum list \<Rightarrow> jsnum" where
  "calculateRateMetrics_mean rates = foldl (\<lambda>sum r. sum + r) 0 rates / num (length rates)"

definition calculateRateMetrics_median :: "jsnum list \<Rightarrow> jsnum option" where
  \<comment> \<open>\<^verbatim>\<open>[...rates].sort((a, b) => a - b)[Math.floor(rates.length / 2)]\<close>\<close>
  "calculateRateMetrics_median rates =
     index (sort_by (\<lambda>a b. a - b) rates) (length rates div 2)"

definition rateFilter :: "Transaction \<Rightarrow> bool" where
  \<comment> \<open>\<^verbatim>\<open>t.customerFacingAmount && t.customerFacingCurrency === 'usd'\<close>\<close>
  "rateFilter t =
     (truthy_numopt (customerFacingAmount t) \<and> customerFacingCurrency t = Some ''usd'')"

definition exchangeRateOf :: "libs \<Rightarrow> Transaction \<Rightarrow> error + ExchangeRateData" where
  "exchangeRateOf L t =
     (case format L (parseISO L (created t)) ''MMM dd'' of
        Inl e \<Rightarrow> Inl e
      | Inr d \<Rightarrow>
          Inr \<lparr>date = d,
               rate = \<bar>amount t / or_num (customerFacingAmount t) (Fin 1)\<bar>,
               volume = \<bar>or_num (customerFacingAmount t) (Fin 0)\<bar>,
               rawDate = parseISO L (created t),
               count = 1\<rparr>)"

definition exchangeRates :: "libs \<Rightarrow> Transaction list \<Rightarrow> error + ExchangeRateData list" where
  "exchangeRates L ts =
     (case mapE (exchangeRateOf L) (filter rateFilter ts) of
        Inl e \<Rightarrow> Inl e
      | Inr rs \<Rightarrow> Inr (sort_by (\<lambda>a b. getTime (rawDate a) - getTime (rawDate b)) rs))"

definition ExchangeRateAnalysis_volumeWeightedRate :: "libs \<Rightarrow> Transaction list \<Rightarrow> error + jsnum" where
  "ExchangeRateAnalysis_volumeWeightedRate L ts =
     (case exchangeRates L ts of
        Inl e \<Rightarrow> Inl e
      | Inr rs \<Rightarrow>
          Inr (foldl (\<lambda>sum r. sum + rate r * ExchangeRateData.volume r) 0 rs /
               foldl (\<lambda>sum r. sum + ExchangeRateData.volume r) 0 rs))"

section \<open>TransactionMetrics\<close>

text \<open>
  \<^verbatim>\<open>interface Metrics\<close>. The two dictionaries are kept in the order in which their keys
  were inserted; \<^verbatim>\<open>Object.entries\<close> lists the integer keys of \<open>hourlyDistribution\<close> in
  ascending order.
\<close>

record Metrics =
  totalVolume :: jsnum
  avgTransactionSize :: jsnum
  avgExchangeRate :: jsnum
  exchangeRateCount :: nat
  minExchangeRate :: jsnum
  maxExchangeRate :: jsnum
  hourlyDistribution :: "(nat \<times> nat) list"
  totalTransactions :: nat
  smallTransactions :: nat
  mediumTransactions :: nat
  largeTransactions :: nat
  processingTimes :: "jsnum list"
  monthlyVolumes :: "(string \<times> jsnum) list"
  totalUsdVolume :: jsnum
  volumeWeightedRate :: jsnum
  totalWeightedVolume :: jsnum
  paymentPayoutPairs :: "jsnum \<times> jsnum \<times> jsnum"

definition initialMetrics :: Metrics where
  "initialMetrics =
     \<lparr>totalVolume = Fin 0, avgTransactionSize = Fin 0, avgExchangeRate = Fin 0,
      exchangeRateCount = 0, minExchangeRate = Fin 0, maxExchangeRate = Fin 0,
      hourlyDistribution = [], totalTransactions = 0, smallTransactions = 0,
      mediumTransactions = 0, largeTransactions = 0, processingTimes = [],
      monthlyVolumes = [], totalUsdVolume = Fin 0, volumeWeightedRate = Fin 0,
      totalWeightedVolume = Fin 0, paymentPayoutPairs = (Fin 0, Fin 0, Fin 0)\<rparr>"

text \<open>The four parts of the reducer's body, in the order of the source.\<close>

definition basicMetrics :: "nat \<Rightarrow> Transaction \<Rightarrow> Metrics \<Rightarrow> Metrics" where
  \<comment> \<open>\<open>n\<close> is \<^verbatim>\<open>transactions.length\<close>\<close>
  "basicMetrics n t acc =
     (let tv = totalVolume acc + \<bar>amount t\<bar>
      in acc\<lparr>totalVolume := tv, avgTransactionSize := tv / num n\<rparr>)"

definition exchangeRateMetrics :: "Transaction \<Rightarrow> Metrics \<Rightarrow> Metrics" where
  "exchangeRateMetrics t acc =
     (case customerFacingAmount t of
        None \<Rightarrow> acc
      | Some c \<Rightarrow>
          if truthy_num c then
            (let rate = \<bar>amount t / c\<bar>
             in acc\<lparr>avgExchangeRate := avgExchangeRate acc + rate,
                    exchangeRateCount := exchangeRateCount acc + 1,
                    minExchangeRate :=
                      (if minExchangeRate acc = Fin 0 then rate
                       else Math_min (minExchangeRate acc) rate),
                    maxExchangeRate := Math_max (maxExchangeRate acc) rate,
                    totalUsdVolume := totalUsdVolume acc + c,
                    volumeWeightedRate := volumeWeightedRate acc + rate * c,
                    totalWeightedVolume := totalWeightedVolume acc + c\<rparr>)
          else acc)"

definition timeMetrics :: "libs \<Rightarrow> Transaction \<Rightarrow> Metrics \<Rightarrow> error + Metrics" where
  \<comment> \<open>\<^verbatim>\<open>format(date, 'MMM yyyy')\<close> throws on an invalid \<^verbatim>\<open>new Date(t.created)\<close>\<close>
  "timeMetrics L t acc =
     (case newDate L (created t) of
        None \<Rightarrow> Inl RangeError
      | Some ms \<Rightarrow>
          Inr (acc\<lparr>hourlyDistribution := upsert (getHours L ms) 0 Suc (hourlyDistribution acc),
                   monthlyVolumes :=
                     upsert (fmt L ''MMM yyyy'' ms) (Fin 0)
                       (\<lambda>v. or_num (Some v) (Fin 0) + \<bar>amount t\<bar>)
                       (monthlyVolumes acc)\<rparr>))"

definition sizeMetrics :: "libs \<Rightarrow> Transaction \<Rightarrow> Metrics \<Rightarrow> Metrics" where
  "sizeMetrics L t acc =
     (let acc1 = acc\<lparr>processingTimes := processingTimes acc @
                   [differenceInHours (newDate L (availableOn t)) (newDate L (created t))]\<rparr>;
          acc2 = (if js_lt \<bar>amount t\<bar> (Fin 10000)
                  then acc1\<lparr>smallTransactions := smallTransactions acc1 + 1\<rparr>
                  else if js_lt \<bar>amount t\<bar> (Fin 50000)
                  then acc1\<lparr>mediumTransactions := mediumTransactions acc1 + 1\<rparr>
                  else acc1\<lparr>largeTransactions := largeTransactions acc1 + 1\<rparr>)
      in acc2\<lparr>totalTransactions := totalTransactions acc2 + 1\<rparr>)"

definition metricsStep :: "libs \<Rightarrow> nat \<Rightarrow> Metrics \<Rightarrow> Transaction \<Rightarrow> error + Metrics" where
  "metricsStep L n acc t =
     (if txn_type t = Some ''payment'' then
        (case timeMetrics L t (exchangeRateMetrics t (basicMetrics n t acc)) of
           Inl e \<Rightarrow> Inl e
         | Inr acc' \<Rightarrow> Inr (sizeMetrics L t acc'))
      else Inr acc)"

definition TransactionMetrics_metrics :: "libs \<Rightarrow> Transaction list \<Rightarrow> error + Metrics" where
  "TransactionMetrics_metrics L ts = foldE (metricsStep L (length ts)) initialMetrics ts"

definition TransactionMetrics_volumeWeightedExchangeRate ::
  "libs \<Rightarrow> Transaction list \<Rightarrow> error + jsnum"
where
  \<comment> \<open>\<^verbatim>\<open>metrics.volumeWeightedRate / metrics.totalWeightedVolume\<close>\<close>
  "TransactionMetrics_volumeWeightedExchangeRate L ts =
     (case TransactionMetrics_metrics L ts of
        Inl e \<Rightarrow> Inl e
      | Inr m \<Rightarrow> Inr (volumeWeightedRate m / totalWeightedVolume m))"

text \<open>The decimal digits of a number, as a template string writes an hour.\<close>

fun show_nat :: "nat \<Rightarrow> string" where
  "show_nat n =
     (if n < 10 then [char_of (48 + n)]
      else show_nat (n div 10) @ [char_of (48 + n mod 10)])"

declare show_nat.simps [simp del]

definition TransactionMetrics_peakHour :: "Metrics \<Rightarrow> (nat \<times> nat) option" where
  \<comment> \<open>\<^verbatim>\<open>Object.entries(metrics.hourlyDistribution).sort(([, a], [, b]) => Number(b) - Number(a))[0]\<close>\<close>
  "TransactionMetrics_peakHour m =
     index (sort_by (\<lambda>a b. num (snd b) - num (snd a)) (sort_key fst (hourlyDistribution m))) 0"

definition TransactionMetrics_peakHourFormatted :: "Metrics \<Rightarrow> error + string" where
  \<comment> \<open>\<^verbatim>\<open>`${peakHour[0]}:00`\<close> throws a \<^verbatim>\<open>TypeError\<close> when \<^verbatim>\<open>peakHour\<close> is \<^verbatim>\<open>undefined\<close>\<close>
  "TransactionMetrics_peakHourFormatted m =
     (case TransactionMetrics_peakHour m of
        None \<Rightarrow> Inl TypeError
      | Some e \<Rightarrow> Inr (show_nat (fst e) @ '':00''))"

text \<open>
  \<^verbatim>\<open>volumeMetrics.successRate\<close> is computed after the reducer and after
  \<^verbatim>\<open>peakHourFormatted\<close>, and only if neither has thrown.
\<close>

definition TransactionMetrics_successRate :: "libs \<Rightarrow> Transaction list \<Rightarrow> error + jsnum" where
  \<comment> \<open>\<^verbatim>\<open>(metrics.totalTransactions / transactions.length) * 100\<close>\<close>
  "TransactionMetrics_successRate L ts =
     (case TransactionMetrics_metrics L ts of
        Inl e \<Rightarrow> Inl e
      | Inr m \<Rightarrow>
          (case TransactionMetrics_peakHourFormatted m of
             Inl e \<Rightarrow> Inl e
           | Inr p \<Rightarrow> Inr ((num (totalTransactions m) / num (length ts)) * Fin 100)))"

section \<open>ValueSegmentation\<close>

text \<open>\<^verbatim>\<open>interface ValueSegment\<close>, without its colour; \<^verbatim>\<open>range\<close> is \<open>srange\<close> here.\<close>

record ValueSegment =
  label :: string
  srange :: "jsnum \<times> jsnum"
  count :: nat
  volume :: jsnum

definition segments :: "ValueSegment list" where
  "segments =
     [\<lparr>label = ''Micro (< $100)'', srange = (Fin 0, Fin 100), count = 0, volume = Fin 0\<rparr>,
      \<lparr>label = ''Small ($100-500)'', srange = (Fin 100, Fin 500), count = 0, volume = Fin 0\<rparr>,
      \<lparr>label = ''Medium ($500-1K)'', srange = (Fin 500, Fin 1000), count = 0, volume = Fin 0\<rparr>,
      \<lparr>label = ''Large ($1K-5K)'', srange = (Fin 1000, Fin 5000), count = 0, volume = Fin 0\<rparr>,
      \<lparr>label = ''Enterprise (> $5K)'', srange = (Fin 5000, PInf), count = 0, volume = Fin 0\<rparr>]"

definition inSegment :: "jsnum \<Rightarrow> ValueSegment \<Rightarrow> bool" where
  \<comment> \<open>\<^verbatim>\<open>amount >= s.range[0] && amount < s.range[1]\<close>\<close>
  "inSegment a s = (js_ge a (fst (srange s)) \<and> js_lt a (snd (srange s)))"

definition segmentAmount :: "Transaction \<Rightarrow> jsnum" where
  \<comment> \<open>\<^verbatim>\<open>Math.abs(t.customerFacingAmount || 0)\<close>\<close>
  "segmentAmount t = \<bar>or_num (customerFacingAmount t) (Fin 0)\<bar>"

definition categorize :: "ValueSegment list \<Rightarrow> Transaction \<Rightarrow> ValueSegment list" where
  "categorize segs t =
     update_first (inSegment (segmentAmount t))
       (\<lambda>s. s\<lparr>ValueSegment.count := ValueSegment.count s + 1,
               ValueSegment.volume := ValueSegment.volume s + segmentAmount t\<rparr>)
       segs"

definition ValueSegmentation_segments :: "Transaction list \<Rightarrow> ValueSegment list" where
  "ValueSegmentation_segments ts = foldl categorize segments ts"

definition ValueSegmentation_totalTransactions :: "Transaction list \<Rightarrow> nat" where
  "ValueSegmentation_totalTransactions ts =
     foldl (\<lambda>sum s. sum + ValueSegment.count s) 0 (ValueSegmentation_segments ts)"

section \<open>CurrencyDistributionChart\<close>

record CurrencyMetrics =
  volume :: jsnum
  count :: nat
  avgSize :: jsnum
  percentageVolume :: jsnum
  percentageCount :: jsnum

definition currencyKey :: "libs \<Rightarrow> Transaction \<Rightarrow> string" where
  \<comment> \<open>\<^verbatim>\<open>t.customerFacingCurrency?.toUpperCase() || 'UNKNOWN'\<close>\<close>
  "currencyKey L t =
     (case customerFacingCurrency t of
        None \<Rightarrow> ''UNKNOWN''
      | Some c \<Rightarrow> if toUpperCase L c = [] then ''UNKNOWN'' else toUpperCase L c)"

definition currencyData :: "libs \<Rightarrow> Transaction list \<Rightarrow> (string \<times> CurrencyMetrics) list" where
  "currencyData L ts =
     foldl (\<lambda>acc t.
         upsert (currencyKey L t)
           \<lparr>volume = Fin 0, count = 0, avgSize = Fin 0, percentageVolume = Fin 0,
            percentageCount = Fin 0\<rparr>
           (\<lambda>d. d\<lparr>CurrencyMetrics.volume :=
                     CurrencyMetrics.volume d + \<bar>or_num (customerFacingAmount t) (Fin 0)\<bar>,
                   CurrencyMetrics.count := CurrencyMetrics.count d + 1\<rparr>)
           acc)
       [] ts"

definition CurrencyDistributionChart_totalCount :: "libs \<Rightarrow> Transaction list \<Rightarrow> nat" where
  "CurrencyDistributionChart_totalCount L ts =
     foldl (\<lambda>sum d. sum + CurrencyMetrics.count d) 0 (map snd (currencyData L ts))"

section \<open>WeekdayAnalysis\<close>

record WeekdayData =
  day :: string
  count :: nat
  volume :: jsnum
  avgSize :: jsnum

definition weekdays :: "string list" where
  "weekdays =
     [''Sunday'', ''Monday'', ''Tuesday'', ''Wednesday'', ''Thursday'', ''Friday'', ''Saturday'']"

definition initialWeekdayData :: "(string \<times> WeekdayData) list" where
  "initialWeekdayData =
     foldl (\<lambda>acc d. acc @ [(d, \<lparr>day = d, count = 0, volume = Fin 0, avgSize = Fin 0\<rparr>)])
       [] weekdays"

definition weekdayStep ::
  "libs \<Rightarrow> (string \<times> WeekdayData) list \<Rightarrow> Transaction \<Rightarrow> error + (string \<times> WeekdayData) list"
where
  \<comment> \<open>\<^verbatim>\<open>weekdayData[day].count++\<close> throws a \<^verbatim>\<open>TypeError\<close> when \<open>day\<close> is not one of the seven keys\<close>
  "weekdayStep L acc t =
     (case format L (parseISO L (created t)) ''EEEE'' of
        Inl e \<Rightarrow> Inl e
      | Inr d \<Rightarrow>
          (case map_of acc d of
             None \<Rightarrow> Inl TypeError
           | Some w \<Rightarrow>
               Inr (update_key d
                     (\<lambda>w. w\<lparr>WeekdayData.count := WeekdayData.count w + 1,
                             WeekdayData.volume := WeekdayData.volume w +
                               \<bar>or_num (customerFacingAmount t) (Fin 0)\<bar>\<rparr>)
                     acc)))"

definition weekdayData :: "libs \<Rightarrow> Transaction list \<Rightarrow> error + (string \<times> WeekdayData) list" where
  "weekdayData L ts =
     (case foldE (weekdayStep L) initialWeekdayData ts of
        Inl e \<Rightarrow> Inl e
      | Inr acc \<Rightarrow>
          Inr (map (\<lambda>(k, w). (k, w\<lparr>avgSize := WeekdayData.volume w / num (WeekdayData.count w)\<rparr>))
                acc))"

definition WeekdayAnalysis_peakDay :: "libs \<Rightarrow> Transaction list \<Rightarrow> error + WeekdayData" where
  "WeekdayAnalysis_peakDay L ts =
     (case weekdayData L ts of
        Inl e \<Rightarrow> Inl e
      | Inr wd \<Rightarrow>
          reduce1 (\<lambda>peak current.
              if WeekdayData.count current > WeekdayData.count peak then current else peak)
            (map snd wd))"

definition WeekdayAnalysis_totalTransactions :: "libs \<Rightarrow> Transaction list \<Rightarrow> error + nat" where
  "WeekdayAnalysis_totalTransactions L ts =
     (case WeekdayAnalysis_peakDay L ts of
        Inl e \<Rightarrow> Inl e
      | Inr peak \<Rightarrow>
          (case weekdayData L ts of
             Inl e \<Rightarrow> Inl e
           | Inr wd \<Rightarrow> Inr (foldl (\<lambda>sum d. sum + WeekdayData.count d) 0 (map snd wd))))"

section \<open>TransactionChart\<close>

record DailyData =
  date :: string
  volume :: jsnum
  count :: nat
  avgSize :: jsnum
  rawDate :: "int option"

definition dailyStep ::
  "libs \<Rightarrow> (string \<times> DailyData) list \<Rightarrow> Transaction \<Rightarrow> error + (string \<times> DailyData) list"
where
  "dailyStep L acc t =
     (case format L (parseISO L (created t)) ''MMM dd'' of
        Inl e \<Rightarrow> Inl e
      | Inr d \<Rightarrow>
          Inr (upsert d
                \<lparr>date = d, volume = Fin 0, count = 0, avgSize = Fin 0,
                 rawDate = parseISO L (created t)\<rparr>
                (\<lambda>x. let v = DailyData.volume x + \<bar>or_num (customerFacingAmount t) (Fin 0)\<bar>;
                          c = DailyData.count x + 1
                      in x\<lparr>DailyData.volume := v, DailyData.count := c,
                           DailyData.avgSize := v / num c\<rparr>)
                acc))"

definition sortedDays :: "libs \<Rightarrow> Transaction list \<Rightarrow> error + DailyData list" where
  "sortedDays L ts =
     (case foldE (dailyStep L) [] ts of
        Inl e \<Rightarrow> Inl e
      | Inr dailyData \<Rightarrow>
          Inr (sort_by (\<lambda>a b. getTime (DailyData.rawDate a) - getTime (DailyData.rawDate b))
                (map snd dailyData)))"

definition TransactionChart_totalCount :: "libs \<Rightarrow> Transaction list \<Rightarrow> error + nat" where
  "TransactionChart_totalCount L ts =
     (case sortedDays L ts of
        Inl e \<Rightarrow> Inl e
      | Inr days \<Rightarrow> Inr (foldl (\<lambda>sum d. sum + DailyData.count d) 0 days))"

section \<open>TransactionVelocity\<close>

record HourlyData =
  hour :: string
  count :: nat
  volume :: jsnum
  avgSize :: jsnum
  transactions :: "Transaction list"

definition hourlyStep ::
  "libs \<Rightarrow> (string \<times> HourlyData) list \<Rightarrow> Transaction \<Rightarrow> error + (string \<times> HourlyData) list"
where
  "hourlyStep L acc t =
     (case format L (parseISO L (created t)) ''HH:00'' of
        Inl e \<Rightarrow> Inl e
      | Inr h \<Rightarrow>
          Inr (upsert h
                \<lparr>hour = h, count = 0, volume = Fin 0, avgSize = Fin 0, transactions = []\<rparr>
                (\<lambda>x. let c = HourlyData.count x + 1;
                          v = HourlyData.volume x + \<bar>or_num (customerFacingAmount t) (Fin 0)\<bar>
                      in x\<lparr>HourlyData.count := c, HourlyData.volume := v,
                           transactions := transactions x @ [t],
                           HourlyData.avgSize := v / num c\<rparr>)
                acc))"

definition sortedHours :: "libs \<Rightarrow> Transaction list \<Rightarrow> error + HourlyData list" where
  "sortedHours L ts =
     (case foldE (hourlyStep L) [] ts of
        Inl e \<Rightarrow> Inl e
      | Inr hourlyData \<Rightarrow>
          Inr (sort_by (\<lambda>a b. localeCompare L (hour a) (hour b)) (map snd hourlyData)))"

definition medianTransactionsPerHour_of :: "HourlyData list \<Rightarrow> nat option" where
  \<comment> \<open>\<^verbatim>\<open>sortedHours.map(h => h.count).sort((a, b) => a - b)[Math.floor(sortedHours.length / 2)]\<close>\<close>
  "medianTransactionsPerHour_of hs =
     index (sort_by (\<lambda>a b. num a - num b) (map HourlyData.count hs)) (length hs div 2)"

text \<open>The values the component computes from \<open>sortedHours\<close>, in the order of the source.\<close>

record Velocity =
  peakHour :: HourlyData
  totalTransactions :: nat
  avgTransactionsPerHour :: jsnum
  peakVolumeHour :: HourlyData
  medianTransactionsPerHour :: "nat option"

definition TransactionVelocity :: "libs \<Rightarrow> Transaction list \<Rightarrow> error + Velocity" where
  "TransactionVelocity L ts =
     (case sortedHours L ts of
        Inl e \<Rightarrow> Inl e
      | Inr hs \<Rightarrow>
          (case reduce1 (\<lambda>peak current.
                   if HourlyData.count current > HourlyData.count peak then current else peak) hs of
             Inl e \<Rightarrow> Inl e
           | Inr ph \<Rightarrow>
               (let total = foldl (\<lambda>sum h. sum + HourlyData.count h) 0 hs
                in case reduce1 (\<lambda>peak current.
                          if js_gt (HourlyData.volume current) (HourlyData.volume peak)
                          then current else peak) hs of
                     Inl e \<Rightarrow> Inl e
                   | Inr pv \<Rightarrow>
                       Inr \<lparr>peakHour = ph,
                            totalTransactions = total,
                            avgTransactionsPerHour = num total / num (length hs),
                            peakVolumeHour = pv,
                            medianTransactionsPerHour = medianTransactionsPerHour_of hs\<rparr>)))"

section \<open>MonthlyVolumeTrends\<close>

record MonthlyMetrics =
  volume :: jsnum
  count :: nat
  avgSize :: jsnum
  growth :: jsnum

definition monthlyData :: "libs \<Rightarrow> Transaction list \<Rightarrow> error + (string \<times> MonthlyMetrics) list" where
  "monthlyData L ts =
     foldE (\<lambda>acc t.
         case format L (parseISO L (created t)) ''MMM yyyy'' of
           Inl e \<Rightarrow> Inl e
         | Inr month \<Rightarrow>
             Inr (upsert month
                   \<lparr>volume = Fin 0, count = 0, avgSize = Fin 0, growth = Fin 0\<rparr>
                   (\<lambda>x. x\<lparr>MonthlyMetrics.volume := MonthlyMetrics.volume x +
                             \<bar>or_num (customerFacingAmount t) (Fin 0)\<bar>,
                           MonthlyMetrics.count := MonthlyMetrics.count x + 1\<rparr>)
                   acc))
       [] ts"

section \<open>ProcessingTimeMetrics\<close>

text \<open>The groups of \<^verbatim>\<open>calculateDailyMetrics\<close>: \<^verbatim>\<open>{ times: number[]; date: string }\<close>.\<close>

record DailyGroup =
  group_times :: "jsnum list"
  group_date :: string

definition dailyGroups :: "libs \<Rightarrow> Transaction list \<Rightarrow> error + (string \<times> DailyGroup) list" where
  "dailyGroups L ts =
     foldE (\<lambda>acc t.
         case format L (parseISO L (created t)) ''MMM dd'' of
           Inl e \<Rightarrow> Inl e
         | Inr d \<Rightarrow>
             Inr (upsert d \<lparr>group_times = [], group_date = d\<rparr>
                   (\<lambda>g. if js_gt (calculateProcessingTime L t) (Fin 0)
                        then g\<lparr>group_times := group_times g @ [calculateProcessingTime L t]\<rparr>
                        else g)
                   acc))
       [] ts"

section \<open>parseTransactions\<close>



fun split :: "char \<Rightarrow> string \<Rightarrow> string list" where
  "split c [] = [[]]"
| "split c (x # xs) =
     (if x = c then [] # split c xs
      else (case split c xs of [] \<Rightarrow> [[x]] | w # ws \<Rightarrow> (x # w) # ws))"



section \<open>The claims in the words of the specification\<close>

text \<open>
  The volume-weighted rate as the specification writes it:
  \<open>\<Sum>(rate\<^sub>i * volume\<^sub>i) / \<Sum>(volume\<^sub>i)\<close> with \<open>rate\<^sub>i = abs(amount\<^sub>i / customerFacingAmount\<^sub>i)\<close> and
  \<open>volume\<^sub>i = abs(customerFacingAmount\<^sub>i)\<close>, over the records in US dollars whose
  customer-facing amount is present (not \<^verbatim>\<open>null\<close>) and not zero.
\<close>

definition toNumber :: "jsnum option \<Rightarrow> jsnum" where
  \<comment> \<open>\<^verbatim>\<open>null\<close> in arithmetic is \<^verbatim>\<open>0\<close>\<close>
  "toNumber v = (case v of None \<Rightarrow> Fin 0 | Some c \<Rightarrow> c)"

definition spec_rate :: "Transaction \<Rightarrow> jsnum" where
  "spec_rate t = \<bar>amount t / toNumber (customerFacingAmount t)\<bar>"

definition spec_volume :: "Transaction \<Rightarrow> jsnum" where
  "spec_volume t = \<bar>toNumber (customerFacingAmount t)\<bar>"

definition spec_selected :: "Transaction \<Rightarrow> bool" where
  "spec_selected t =
     (customerFacingCurrency t = Some ''usd'' \<and>
      (case customerFacingAmount t of None \<Rightarrow> False | Some c \<Rightarrow> c \<noteq> Fin 0))"

definition spec_volumeWeightedRate :: "Transaction list \<Rightarrow> jsnum" where
  "spec_volumeWeightedRate ts =
     sum_list (map (\<lambda>t. spec_rate t * spec_volume t) (filter spec_selected ts)) /
     sum_list (map spec_volume (filter spec_selected ts))"

text \<open>
  The same formula as \<^verbatim>\<open>TransactionMetrics\<close> computes it: over the payments whose
  customer-facing amount is truthy, in any currency, each weighted by its customer-facing
  amount with its sign.
\<close>

definition payment_selected :: "Transaction \<Rightarrow> bool" where
  "payment_selected t =
     (txn_type t = Some ''payment'' \<and> truthy_numopt (customerFacingAmount t))"

definition payment_volumeWeightedRate :: "Transaction list \<Rightarrow> jsnum" where
  "payment_volumeWeightedRate ts =
     sum_list (map (\<lambda>t. spec_rate t * toNumber (customerFacingAmount t))
       (filter payment_selected ts)) /
     sum_list (map (\<lambda>t. toNumber (customerFacingAmount t)) (filter payment_selected ts))"

text \<open>
  The median as the specification writes it: a full sort, then the element at index
  \<open>\<lfloor>n / 2\<rfloor>\<close>; nothing for an empty input.
\<close>

definition spec_median :: "'a::linorder list \<Rightarrow> 'a option" where
  "spec_median xs = (if xs = [] then None else Some (sort xs ! (length xs div 2)))"

text \<open>
  A bucket by the specification's rule for the processing-time chart: the first interval
  whose upper bound the time is strictly less than.
\<close>

definition spec_intervalOf :: "jsnum \<Rightarrow> interval option" where
  "spec_intervalOf time =
     find (\<lambda>i. case i of IvNum b \<Rightarrow> js_lt time (Fin b) | IvStr s \<Rightarrow> False) intervals"

text \<open>
  The same rule for the value segments: the position of the first segment whose upper
  bound the amount is strictly less than, if there is one.
\<close>

definition spec_segmentIndex :: "jsnum \<Rightarrow> nat option" where
  "spec_segmentIndex a =
     find (\<lambda>i. js_lt a (snd (srange (segments ! i)))) [0..<length segments]"


section \<open>Sample inputs\<close>

text \<open>
  The library functions on the dates of the examples below, in the time zone UTC:
  7 January 2024 was a Sunday. Outside these dates \<open>sample_parse\<close> answers
  \<^verbatim>\<open>Invalid Date\<close>, which is what the libraries answer for the strings \<^verbatim>\<open>''\<close> and
  \<^verbatim>\<open>'soon'\<close> that the examples use as dates that do not parse.
\<close>

definition sample_dates :: "(string \<times> int) list" where
  "sample_dates =
     [(''2024-01-07T09:13:30Z'', 1704618810000),
      (''2024-01-07T09:15:00Z'', 1704618900000),
      (''2024-01-07T09:45:00Z'', 1704620700000),
      (''2024-01-08T14:30:00Z'', 1704724200000),
      (''2024-01-08T14:35:00Z'', 1704724500000)]"

definition sample_parse :: "string option \<Rightarrow> int option" where
  "sample_parse s = (case s of None \<Rightarrow> None | Some x \<Rightarrow> map_of sample_dates x)"

definition sample_fmt :: "string \<Rightarrow> int \<Rightarrow> string" where
  "sample_fmt p ms =
     (if ms < 1704672000000
      then (if p = ''EEEE'' then ''Sunday'' else if p = ''MMM dd'' then ''Jan 07''
            else if p = ''HH:00'' then ''09:00'' else ''Jan 2024'')
      else (if p = ''EEEE'' then ''Monday'' else if p = ''MMM dd'' then ''Jan 08''
            else if p = ''HH:00'' then ''14:00'' else ''Jan 2024''))"

definition sample_compare :: "string \<Rightarrow> string \<Rightarrow> jsnum" where
  \<comment> \<open>\<^verbatim>\<open>localeCompare\<close> on the two hour labels of the examples\<close>
  "sample_compare a b =
     (if a = b then Fin 0 else if a = ''09:00'' then Fin (- 1) else Fin 1)"

definition sample_upper :: "string \<Rightarrow> string" where
  \<comment> \<open>\<^verbatim>\<open>toUpperCase\<close> on ASCII\<close>
  "sample_upper s =
     map (\<lambda>c. if 97 \<le> (of_char c :: nat) \<and> (of_char c :: nat) \<le> 122
              then char_of ((of_char c :: nat) - 32) else c) s"

fun digits_value :: "nat \<Rightarrow> string \<Rightarrow> nat option" where
  "digits_value acc [] = Some acc"
| "digits_value acc (c # cs) =
     (if 48 \<le> (of_char c :: nat) \<and> (of_char c :: nat) \<le> 57
      then digits_value (10 * acc + ((of_char c :: nat) - 48)) cs else None)"

definition sample_parseFloat :: "string option \<Rightarrow> jsnum" where
  \<comment> \<open>\<^verbatim>\<open>parseFloat\<close> on strings of decimal digits; \<^verbatim>\<open>NaN\<close> on \<^verbatim>\<open>undefined\<close> and on \<^verbatim>\<open>''\<close>\<close>
  "sample_parseFloat v =
     (case v of
        None \<Rightarrow> NaN
      | Some s \<Rightarrow> (if s = [] then NaN
                   else case digits_value 0 s of None \<Rightarrow> NaN | Some n \<Rightarrow> num n))"

definition sampleLibs :: libs where
  "sampleLibs =
     \<lparr>parseISO = sample_parse,
      newDate = sample_parse,
      fmt = sample_fmt,
      getHours = (\<lambda>ms. if ms < 1704672000000 then 9 else 14),
      localeCompare = sample_compare,
      toUpperCase = sample_upper,
      parseFloat = sample_parseFloat\<rparr>"

definition tx1 :: Transaction where
  "tx1 =
     \<lparr>txn_id = Some ''txn_1'', txn_type = Some ''payment'', source = Some ''ch_1'',
      amount = Fin 100, fee = Fin 2, net = Fin 98, currency = Some ''ngn'',
      created = Some ''2024-01-07T09:15:00Z'', availableOn = Some ''2024-01-07T09:45:00Z'',
      description = Some ''first'', customerFacingAmount = Some (Fin 50),
      customerFacingCurrency = Some ''usd'', transfer = Some ''tr_1'',
      transferDate = Some ''2024-01-09''\<rparr>"

definition tx2 :: Transaction where
  "tx2 =
     \<lparr>txn_id = Some ''txn_2'', txn_type = Some ''payment'', source = Some ''ch_2'',
      amount = Fin 300, fee = Fin 6, net = Fin 294, currency = Some ''ngn'',
      created = Some ''2024-01-08T14:30:00Z'', availableOn = Some ''2024-01-08T14:35:00Z'',
      description = Some ''second'', customerFacingAmount = Some (Fin 100),
      customerFacingCurrency = Some ''usd'', transfer = Some ''tr_2'',
      transferDate = Some ''2024-01-10''\<rparr>"

definition tx2_eur :: Transaction where
  "tx2_eur = tx2\<lparr>customerFacingCurrency := Some ''eur''\<rparr>"

definition tx2_payout :: Transaction where
  "tx2_payout = tx2\<lparr>txn_type := Some ''payout''\<rparr>"

definition tx1_unavailable :: Transaction where
  "tx1_unavailable = tx1\<lparr>availableOn := Some []\<rparr>"

definition tx1_uncreated :: Transaction where
  "tx1_uncreated = tx1\<lparr>created := Some []\<rparr>"

definition tx1_soon :: Transaction where
  "tx1_soon = tx1\<lparr>created := Some ''soon''\<rparr>"

definition tx1_early :: Transaction where
  \<comment> \<open>available a minute and a half before it was created\<close>
  "tx1_early = tx1\<lparr>availableOn := Some ''2024-01-07T09:13:30Z''\<rparr>"

definition tx2_nan :: Transaction where
  \<comment> \<open>the customer-facing amount of a field that is not a number\<close>
  "tx2_nan = tx2\<lparr>customerFacingAmount := Some NaN\<rparr>"





section \<open>Auxiliary notions of the proofs\<close>

text \<open>
  The update \<^verbatim>\<open>WeekdayAnalysis\<close> applies to the entry of a day, what the fold keeps true
  of every entry, and the last pass that fills in \<^verbatim>\<open>avgSize\<close>.
\<close>

definition weekdayUpdate :: "Transaction \<Rightarrow> WeekdayData \<Rightarrow> WeekdayData" where
  "weekdayUpdate t w =
     w\<lparr>WeekdayData.count := WeekdayData.count w + 1,
       WeekdayData.volume := WeekdayData.volume w + \<bar>or_num (customerFacingAmount t) (Fin 0)\<bar>\<rparr>"

definition weekdayInv :: "string \<Rightarrow> WeekdayData \<Rightarrow> bool" where
  "weekdayInv k w =
     (day w = k \<and> (WeekdayData.count w = 0 \<longrightarrow> WeekdayData.volume w = Fin 0))"

definition withAvgSize :: "WeekdayData \<Rightarrow> WeekdayData" where
  "withAvgSize w = w\<lparr>WeekdayData.avgSize := WeekdayData.volume w / num (WeekdayData.count w)\<rparr>"

section \<open>Sorting\<close>

lemma fin_minus [simp]: "Fin a - Fin b = Fin (a - b)"
  by (simp add: minus_jsnum_def)

lemma insert_by_Fin:
  "insert_by (\<lambda>a b. a - b) (Fin x) (map Fin ys) = map Fin (insort x ys)"
  by (induction ys) (auto simp: js_gt_def)

lemma sort_by_Fin: "sort_by (\<lambda>a b. a - b) (map Fin xs) = map Fin (sort xs)"
  by (induction xs) (simp_all add: sort_by_def insert_by_Fin)

lemma insert_by_num:
  "insert_by (\<lambda>a b. num a - num b) x ys = insort x ys"
  by (induction ys) (auto simp: js_gt_def num_def)

lemma sort_by_num: "sort_by (\<lambda>a b. num a - num b) xs = sort xs"
  by (induction xs) (simp_all add: sort_by_def insert_by_num)

lemma mset_insert_by [simp]: "mset (insert_by cmp x ys) = add_mset x (mset ys)"
  by (induction ys) auto

lemma mset_sort_by [simp]: "mset (sort_by cmp xs) = mset xs"
  by (induction xs) (simp_all add: sort_by_def)

lemma length_sort_by [simp]: "length (sort_by cmp xs) = length xs"
  by (metis mset_sort_by size_mset)

section \<open>Folds and sums\<close>

lemma foldl_plus_sum_list:
  "foldl (\<lambda>sum r. sum + f r) a xs = a + sum_list (map f xs)" for a :: jsnum
  by (induction xs arbitrary: a) (simp_all add: add.assoc)

lemma foldl_plus_sum_list_nat:
  "foldl (\<lambda>sum r. sum + f r) a xs = a + sum_list (map f xs)" for a :: nat
  by (induction xs arbitrary: a) simp_all

lemma sum_list_sort_by:
  "sum_list (map f (sort_by cmp xs)) = sum_list (map f xs)" for f :: "'a \<Rightarrow> 'b::comm_monoid_add"
proof -
  have "sum_mset (image_mset f (mset (sort_by cmp xs))) = sum_mset (image_mset f (mset xs))"
    by simp
  then show ?thesis
    by (metis mset_map sum_mset_sum_list)
qed

lemma mapE_Inr:
  "(\<forall>x\<in>set xs. f x = Inr (g x)) \<Longrightarrow> mapE f xs = Inr (map g xs)"
  by (induction xs) simp_all

lemma spec_selected_rateFilter:
  "filter (\<lambda>t. customerFacingAmount t \<noteq> Some NaN \<and> spec_selected t) ts = filter rateFilter ts"
  by (induction ts)
    (auto simp: spec_selected_def rateFilter_def truthy_numopt_def truthy_num_def
      split: option.splits)

lemma exchangeRateOf_selected:
  assumes "rateFilter t" and "parseISO L (created t) = Some ms"
  shows "exchangeRateOf L t =
           Inr \<lparr>ExchangeRateData.date = fmt L ''MMM dd'' ms, rate = spec_rate t, ExchangeRateData.volume = spec_volume t,
                ExchangeRateData.rawDate = Some ms, ExchangeRateData.count = 1\<rparr>"
  using assms
  by (auto simp: exchangeRateOf_def format_def rateFilter_def truthy_numopt_def or_num_def
      spec_rate_def spec_volume_def toNumber_def split: option.splits)

lemma exchange_rates_ok:
  assumes "\<forall>t\<in>set ts. rateFilter t \<longrightarrow> parseISO L (created t) \<noteq> None"
  shows "ExchangeRateAnalysis_volumeWeightedRate L ts =
           Inr (spec_volumeWeightedRate (filter (\<lambda>t. customerFacingAmount t \<noteq> Some NaN) ts))"
proof -
  define g where "g = (\<lambda>t. \<lparr>ExchangeRateData.date = fmt L ''MMM dd'' (the (parseISO L (created t))),
      rate = spec_rate t, ExchangeRateData.volume = spec_volume t,
      ExchangeRateData.rawDate = parseISO L (created t), ExchangeRateData.count = 1::nat\<rparr>)"
  have "\<forall>t\<in>set (filter rateFilter ts). exchangeRateOf L t = Inr (g t)"
    using assms by (auto simp: g_def exchangeRateOf_selected)
  then have m: "mapE (exchangeRateOf L) (filter rateFilter ts) = Inr (map g (filter rateFilter ts))"
    by (rule mapE_Inr)
  have r: "(\<lambda>r. rate r * ExchangeRateData.volume r) \<circ> g = (\<lambda>t. spec_rate t * spec_volume t)"
    and v: "ExchangeRateData.volume \<circ> g = spec_volume"
    by (simp_all add: g_def fun_eq_iff)
  show ?thesis
    by (simp add: ExchangeRateAnalysis_volumeWeightedRate_def exchangeRates_def m
        foldl_plus_sum_list sum_list_sort_by spec_volumeWeightedRate_def
        spec_selected_rateFilter r v)
qed

section \<open>The reducer of TransactionMetrics\<close>

lemma foldE_filter_skip:
  "(\<And>acc x. \<not> P x \<Longrightarrow> f acc x = Inr acc) \<Longrightarrow> foldE f acc (filter P xs) = foldE f acc xs"
  by (induction xs arbitrary: acc) (auto split: sum.splits)

lemma foldE_ok:
  "(\<And>acc x. x \<in> set xs \<Longrightarrow> \<exists>acc'. f acc x = Inr acc') \<Longrightarrow> \<exists>r. foldE f acc xs = Inr r"
proof (induction xs arbitrary: acc)
  case Nil
  then show ?case by simp
next
  case (Cons x xs)
  from Cons.prems [of x acc] obtain acc' where a: "f acc x = Inr acc'" by auto
  from Cons.IH [of acc'] Cons.prems obtain r where "foldE f acc' xs = Inr r" by auto
  with a show ?case by simp
qed

lemma metricsStep_payout: "txn_type t \<noteq> Some ''payment'' \<Longrightarrow> metricsStep L n acc t = Inr acc"
  by (simp add: metricsStep_def)

lemma metricsStep_ok:
  "txn_type t = Some ''payment'' \<longrightarrow> newDate L (created t) \<noteq> None \<Longrightarrow>
   \<exists>acc'. metricsStep L n acc t = Inr acc'"
  by (auto simp: metricsStep_def timeMetrics_def split: option.splits)

text \<open>What each part of the reducer does to the three accumulators the claims are about.\<close>

lemma basicMetrics_fields [simp]:
  "volumeWeightedRate (basicMetrics n t acc) = volumeWeightedRate acc"
  "totalWeightedVolume (basicMetrics n t acc) = totalWeightedVolume acc"
  "Metrics.totalTransactions (basicMetrics n t acc) = Metrics.totalTransactions acc"
  by (simp_all add: basicMetrics_def Let_def)

lemma exchangeRateMetrics_fields [simp]:
  "volumeWeightedRate (exchangeRateMetrics t acc) = volumeWeightedRate acc +
     (if truthy_numopt (customerFacingAmount t)
      then spec_rate t * toNumber (customerFacingAmount t) else Fin 0)"
  "totalWeightedVolume (exchangeRateMetrics t acc) = totalWeightedVolume acc +
     (if truthy_numopt (customerFacingAmount t) then toNumber (customerFacingAmount t) else Fin 0)"
  "Metrics.totalTransactions (exchangeRateMetrics t acc) = Metrics.totalTransactions acc"
  by (simp_all add: exchangeRateMetrics_def Let_def truthy_numopt_def spec_rate_def toNumber_def
      split: option.splits)

lemma timeMetrics_fields:
  assumes "timeMetrics L t acc = Inr a"
  shows "volumeWeightedRate a = volumeWeightedRate acc"
    and "totalWeightedVolume a = totalWeightedVolume acc"
    and "Metrics.totalTransactions a = Metrics.totalTransactions acc"
  using assms by (auto simp: timeMetrics_def split: option.splits)

lemma sizeMetrics_fields [simp]:
  "volumeWeightedRate (sizeMetrics L t acc) = volumeWeightedRate acc"
  "totalWeightedVolume (sizeMetrics L t acc) = totalWeightedVolume acc"
  "Metrics.totalTransactions (sizeMetrics L t acc) = Metrics.totalTransactions acc + 1"
  by (simp_all add: sizeMetrics_def Let_def)

lemma metricsStep_weighted:
  assumes "metricsStep L n acc t = Inr acc'"
  shows "volumeWeightedRate acc' = volumeWeightedRate acc +
           (if payment_selected t then spec_rate t * toNumber (customerFacingAmount t) else Fin 0)"
    and "totalWeightedVolume acc' = totalWeightedVolume acc +
           (if payment_selected t then toNumber (customerFacingAmount t) else Fin 0)"
    and "Metrics.totalTransactions acc' = Metrics.totalTransactions acc +
           (if txn_type t = Some ''payment'' then 1 else 0)"
proof -
  show "volumeWeightedRate acc' = volumeWeightedRate acc +
           (if payment_selected t then spec_rate t * toNumber (customerFacingAmount t) else Fin 0)"
    using assms timeMetrics_fields(1) [of L t "exchangeRateMetrics t (basicMetrics n t acc)"]
    by (auto simp: metricsStep_def payment_selected_def split: if_splits sum.splits)
  show "totalWeightedVolume acc' = totalWeightedVolume acc +
           (if payment_selected t then toNumber (customerFacingAmount t) else Fin 0)"
    using assms timeMetrics_fields(2) [of L t "exchangeRateMetrics t (basicMetrics n t acc)"]
    by (auto simp: metricsStep_def payment_selected_def split: if_splits sum.splits)
  show "Metrics.totalTransactions acc' = Metrics.totalTransactions acc +
           (if txn_type t = Some ''payment'' then 1 else 0)"
    using assms timeMetrics_fields(3) [of L t "exchangeRateMetrics t (basicMetrics n t acc)"]
    by (auto simp: metricsStep_def split: if_splits sum.splits)
qed

lemma metrics_fold_weighted:
  "foldE (metricsStep L n) acc ts = Inr m \<Longrightarrow>
   volumeWeightedRate m = volumeWeightedRate acc +
     sum_list (map (\<lambda>t. spec_rate t * toNumber (customerFacingAmount t))
       (filter payment_selected ts)) \<and>
   totalWeightedVolume m = totalWeightedVolume acc +
     sum_list (map (\<lambda>t. toNumber (customerFacingAmount t)) (filter payment_selected ts)) \<and>
   Metrics.totalTransactions m = Metrics.totalTransactions acc +
     length (filter (\<lambda>t. txn_type t = Some ''payment'') ts)"
proof (induction ts arbitrary: acc)
  case Nil
  then show ?case by simp
next
  case (Cons t ts)
  from Cons.prems obtain acc' where s: "metricsStep L n acc t = Inr acc'"
    and r: "foldE (metricsStep L n) acc' ts = Inr m"
    by (auto split: sum.splits)
  from Cons.IH [OF r] metricsStep_weighted [OF s] show ?case
    by (simp add: add.assoc)
qed

text \<open>The divisor \<open>n\<close> reaches \<open>avgTransactionSize\<close> only.\<close>

lemma basicMetrics_avg:
  "basicMetrics n' t (acc\<lparr>avgTransactionSize := x\<rparr>) =
   (basicMetrics n t acc)\<lparr>avgTransactionSize := (totalVolume acc + \<bar>amount t\<bar>) / num n'\<rparr>"
  by (simp add: basicMetrics_def Let_def)

lemma exchangeRateMetrics_avg:
  "exchangeRateMetrics t (acc\<lparr>avgTransactionSize := x\<rparr>) =
   (exchangeRateMetrics t acc)\<lparr>avgTransactionSize := x\<rparr>"
  by (simp add: exchangeRateMetrics_def Let_def split: option.splits)

lemma timeMetrics_avg:
  "timeMetrics L t (acc\<lparr>avgTransactionSize := x\<rparr>) =
   (case timeMetrics L t acc of Inl e \<Rightarrow> Inl e | Inr a \<Rightarrow> Inr (a\<lparr>avgTransactionSize := x\<rparr>))"
  by (simp add: timeMetrics_def split: option.splits)

lemma sizeMetrics_avg:
  "sizeMetrics L t (acc\<lparr>avgTransactionSize := x\<rparr>) =
   (sizeMetrics L t acc)\<lparr>avgTransactionSize := x\<rparr>"
  by (simp add: sizeMetrics_def Let_def)

lemma metricsStep_avg:
  "metricsStep L n acc t = Inr a \<Longrightarrow>
   \<exists>y. metricsStep L n' (acc\<lparr>avgTransactionSize := x\<rparr>) t = Inr (a\<lparr>avgTransactionSize := y\<rparr>)"
proof (cases "txn_type t = Some ''payment''")
  case False
  assume "metricsStep L n acc t = Inr a"
  with False have "a = acc" by (simp add: metricsStep_def)
  with False show ?thesis by (auto simp: metricsStep_def)
next
  case True
  assume "metricsStep L n acc t = Inr a"
  with True show ?thesis
    by (auto simp: metricsStep_def basicMetrics_avg [where n = n and n' = n'] exchangeRateMetrics_avg
        timeMetrics_avg sizeMetrics_avg split: sum.splits)
qed

lemma metrics_fold_avg:
  "foldE (metricsStep L n) acc ts = Inr m \<Longrightarrow>
   \<exists>y. foldE (metricsStep L n') (acc\<lparr>avgTransactionSize := x\<rparr>) ts =
        Inr (m\<lparr>avgTransactionSize := y\<rparr>)"
proof (induction ts arbitrary: acc x)
  case Nil
  then show ?case by auto
next
  case (Cons t ts)
  from Cons.prems obtain acc' where s: "metricsStep L n acc t = Inr acc'"
    and r: "foldE (metricsStep L n) acc' ts = Inr m"
    by (auto split: sum.splits)
  from metricsStep_avg [OF s, of n' x] obtain y
    where s': "metricsStep L n' (acc\<lparr>avgTransactionSize := x\<rparr>) t = Inr (acc'\<lparr>avgTransactionSize := y\<rparr>)"
    by blast
  from Cons.IH [OF r, of y] s' show ?case by simp
qed

lemma initialMetrics_fields [simp]:
  "volumeWeightedRate initialMetrics = Fin 0"
  "totalWeightedVolume initialMetrics = Fin 0"
  "Metrics.totalTransactions initialMetrics = 0"
  "initialMetrics\<lparr>avgTransactionSize := Fin 0\<rparr> = initialMetrics"
  by (simp_all add: initialMetrics_def)

lemma transaction_metrics_rate:
  assumes "\<forall>t\<in>set ts. txn_type t = Some ''payment'' \<longrightarrow> newDate L (created t) \<noteq> None"
  shows "TransactionMetrics_volumeWeightedExchangeRate L ts = Inr (payment_volumeWeightedRate ts)"
proof -
  from assms have "\<exists>m. foldE (metricsStep L (length ts)) initialMetrics ts = Inr m"
    by (intro foldE_ok metricsStep_ok) auto
  then obtain m where m: "foldE (metricsStep L (length ts)) initialMetrics ts = Inr m" ..
  from metrics_fold_weighted [OF m] show ?thesis
    by (simp add: TransactionMetrics_volumeWeightedExchangeRate_def TransactionMetrics_metrics_def
        m payment_volumeWeightedRate_def)
qed

lemmas sample_defs =
  sampleLibs_def sample_parse_def sample_dates_def sample_fmt_def
  sample_compare_def tx1_def tx2_def tx2_eur_def tx2_payout_def tx1_unavailable_def
  tx1_uncreated_def tx1_soon_def tx1_early_def tx2_nan_def

lemmas truthy_defs = truthy_numopt_def truthy_num_def truthy_str_def or_num_def toNumber_def

section \<open>Medians\<close>

text \<open>
  Claim C3. Every median of the engine (the median processing time, the median rate of
  \<^verbatim>\<open>calculateRateMetrics\<close>, the median number of transactions per hour) sorts its input
  and takes the element at index \<open>\<lfloor>n / 2\<rfloor>\<close>: on finite numbers it is \<open>spec_median\<close>.
  For an input of even length \<open>2k\<close> that is the element at index \<open>k\<close> of the sorted
  input, the upper of the two middle elements, not their average: the median of
  \<open>[10, 20, 30, 40]\<close> is \<open>30\<close>, not \<open>25\<close>.
\<close>

theorem median_upper_middle:
  "medianTime (map Fin xs) = map_option Fin (spec_median xs) \<and>
   calculateRateMetrics_median (map Fin xs) = map_option Fin (spec_median xs) \<and>
   medianTransactionsPerHour_of hs = spec_median (map HourlyData.count hs) \<and>
   medianTime [Fin 10, Fin 20, Fin 30, Fin 40] = Some (Fin 30) \<and>
   calculateRateMetrics_median [Fin 10, Fin 20, Fin 30, Fin 40] = Some (Fin 30) \<and>
   spec_median [10, 20, 30, 40 :: rat] = Some 30 \<and>
   (length xs = 2 * k \<and> 0 < k \<longrightarrow>
      spec_median xs = Some (sort xs ! k) \<and> sort xs ! (k - 1) \<le> sort xs ! k)"
proof -
  have a: "medianTime (map Fin ys) = map_option Fin (spec_median ys)" for ys
    by (simp add: medianTime_def spec_median_def index_def sort_by_Fin)
  have b: "calculateRateMetrics_median (map Fin ys) = map_option Fin (spec_median ys)" for ys
    by (simp add: calculateRateMetrics_median_def spec_median_def index_def sort_by_Fin)
  have c: "medianTransactionsPerHour_of hs = spec_median (map HourlyData.count hs)"
    by (simp add: medianTransactionsPerHour_of_def spec_median_def index_def sort_by_num)
  have d: "spec_median [10, 20, 30, 40 :: rat] = Some 30"
    by (simp add: spec_median_def)
  have e: "spec_median xs = Some (sort xs ! k) \<and> sort xs ! (k - 1) \<le> sort xs ! k"
    if "length xs = 2 * k \<and> 0 < k"
  proof -
    from that have "xs \<noteq> []" and "length xs div 2 = k" by auto
    then have m: "spec_median xs = Some (sort xs ! k)" by (simp add: spec_median_def)
    from that have "k - 1 \<le> k" and "k < length (sort xs)" by simp_all
    with sorted_nth_mono [of "sort xs" "k - 1" k] have "sort xs ! (k - 1) \<le> sort xs ! k"
      by simp
    with m show ?thesis by simp
  qed
  from a [of "[10, 20, 30, 40]"] b [of "[10, 20, 30, 40]"] a [of xs] b [of xs] c d e
  show ?thesis by simp
qed

theorem median_upper_middle_witness:
  "medianTime (map Fin [3, 1, 2, 4]) = Some (Fin 3) \<and>
   length [3, 1, 2, 4 :: rat] = 2 * 2 \<and> spec_median [3, 1, 2, 4 :: rat] = Some 3"
  using median_upper_middle [of "[3, 1, 2, 4]" "[]" 2] by (simp add: spec_median_def)

section \<open>Exceptions of the engine\<close>

text \<open>
  Claim C2 says that every aggregation returns a value for every transaction list, the
  empty list included. \<^verbatim>\<open>TransactionVelocity\<close> does not: on the empty list
  \<open>sortedHours\<close> is empty and \<^verbatim>\<open>sortedHours.reduce(...)\<close>, which has no initial value,
  throws a \<^verbatim>\<open>TypeError\<close>.
\<close>

theorem TransactionVelocity_empty_throws: "TransactionVelocity L [] = Inl TypeError"
  by (simp add: TransactionVelocity_def sortedHours_def sort_by_def reduce1_def)

section \<open>The filter of the exchange-rate analysis\<close>

text \<open>
  Claim C10. A record that passes the filter of \<^verbatim>\<open>ExchangeRateAnalysis\<close>
  (\<^verbatim>\<open>t.customerFacingAmount && t.customerFacingCurrency === 'usd'\<close>) has a customer-facing
  amount that is a number, not \<^verbatim>\<open>null\<close> and not zero; so \<^verbatim>\<open>t.customerFacingAmount || 1\<close>
  and \<^verbatim>\<open>t.customerFacingAmount || 0\<close> are the amount itself, the fallbacks are never
  taken, and the rate is computed with a divisor that is not zero.
\<close>

theorem rate_fallback_unreachable:
  "rateFilter t \<Longrightarrow>
     \<exists>c. customerFacingAmount t = Some c \<and> c \<noteq> Fin 0 \<and> c \<noteq> NaN \<and>
         or_num (customerFacingAmount t) (Fin 1) = c \<and>
         or_num (customerFacingAmount t) (Fin 0) = c"
  by (auto simp: rateFilter_def truthy_numopt_def truthy_num_def or_num_def split: option.splits)

theorem rate_fallback_unreachable_witness:
  "rateFilter tx1 \<and>
   (\<exists>c. customerFacingAmount tx1 = Some c \<and> c \<noteq> Fin 0 \<and> c \<noteq> NaN \<and>
         or_num (customerFacingAmount tx1) (Fin 1) = c \<and>
         or_num (customerFacingAmount tx1) (Fin 0) = c)"
proof -
  have h: "rateFilter tx1"
    by (simp add: rateFilter_def tx1_def truthy_numopt_def truthy_num_def)
  show ?thesis using h rate_fallback_unreachable [OF h] by simp
qed

section \<open>Amounts and intervals\<close>

lemma segmentAmount_cases:
  "(\<exists>r. 0 \<le> r \<and> segmentAmount t = Fin r) \<or> segmentAmount t = PInf"
proof (cases "customerFacingAmount t")
  case None
  then show ?thesis by (simp add: segmentAmount_def or_num_def)
next
  case (Some c)
  then show ?thesis
    by (cases c) (auto simp: segmentAmount_def or_num_def truthy_num_def)
qed

lemma update_first_none: "find P xs = None \<Longrightarrow> update_first P f xs = xs"
  by (induction xs) (auto split: if_splits)

lemma intervalOf_chain:
  "intervalOf time =
     (if js_le time (Fin 5) then IvNum 5 else if js_le time (Fin 15) then IvNum 15
      else if js_le time (Fin 30) then IvNum 30 else if js_le time (Fin 60) then IvNum 60
      else if js_le time (Fin 120) then IvNum 120 else IvStr ''More'')"
  by (simp add: intervalOf_def intervals_def truthy_interval_def)

section \<open>Invariants of a fold\<close>

lemma foldE_invariant:
  assumes "foldE f acc xs = Inr r" and "I acc"
    and "\<And>a x a'. I a \<Longrightarrow> x \<in> set xs \<Longrightarrow> f a x = Inr a' \<Longrightarrow> I a'"
  shows "I r"
  using assms
proof (induction xs arbitrary: acc)
  case Nil
  then show ?case by simp
next
  case (Cons x xs)
  from Cons.prems(1) obtain a' where s: "f acc x = Inr a'" and r: "foldE f a' xs = Inr r"
    by (auto split: sum.splits)
  have ia: "I a'"
    by (rule Cons.prems(3) [OF Cons.prems(2) _ s]) simp
  show ?case
  proof (rule Cons.IH [OF r ia])
    fix a y b
    assume "I a" "y \<in> set xs" "f a y = Inr b"
    then show "I b" using Cons.prems(3) [of a y b] by simp
  qed
qed


section \<open>Empty customer-facing fields\<close>







section \<open>Grouping into a dictionary\<close>

lemma update_key_Nil [simp]: "update_key k f [] = []"
  by (simp add: update_key_def)

lemma update_key_Cons [simp]:
  "update_key k f ((k', v) # kvs) =
     (if k' = k then (k', f v) else (k', v)) # update_key k f kvs"
  by (simp add: update_key_def)

lemma map_fst_update_key [simp]: "map fst (update_key k f kvs) = map fst kvs"
  by (induction kvs) auto

lemma map_of_update_key:
  "map_of (update_key k f kvs) k' =
     (if k' = k then map_option f (map_of kvs k) else map_of kvs k')"
  by (induction kvs) auto

lemma update_key_absent: "k \<notin> set (map fst kvs) \<Longrightarrow> update_key k f kvs = kvs"
  by (induction kvs) auto

lemma sum_update_key:
  fixes c :: "'v \<Rightarrow> nat"
  assumes "distinct (map fst kvs)" and "map_of kvs k = Some v"
  shows "sum_list (map (\<lambda>kv. c (snd kv)) (update_key k f kvs)) + c v =
         sum_list (map (\<lambda>kv. c (snd kv)) kvs) + c (f v)"
  using assms
proof (induction kvs)
  case Nil
  then show ?case by simp
next
  case (Cons a kvs)
  obtain k' v' where a: "a = (k', v')" by (cases a)
  show ?case
  proof (cases "k' = k")
    case True
    with Cons.prems a have "v' = v" and "k \<notin> set (map fst kvs)" by auto
    with True a show ?thesis by (simp add: update_key_absent)
  next
    case False
    with Cons.prems a have "distinct (map fst kvs)" and "map_of kvs k = Some v" by auto
    from Cons.IH [OF this] False a show ?thesis by simp
  qed
qed

lemma upsert_cases:
  "upsert k d f kvs =
     (if k \<in> set (map fst kvs) then update_key k f kvs else kvs @ [(k, f d)])"
proof (cases "map_of kvs k")
  case None
  then have "k \<notin> set (map fst kvs)" by (simp add: map_of_eq_None_iff)
  with None show ?thesis by (simp add: upsert_def)
next
  case (Some v)
  then have "k \<in> set (map fst kvs)" by (metis map_of_eq_None_iff option.distinct(1) set_map)
  with Some show ?thesis by (simp add: upsert_def)
qed

lemma distinct_upsert: "distinct (map fst kvs) \<Longrightarrow> distinct (map fst (upsert k d f kvs))"
  by (simp add: upsert_cases)

lemma sum_upsert:
  fixes c :: "'v \<Rightarrow> nat"
  assumes "distinct (map fst kvs)" and "c d = 0" and "\<And>v. c (f v) = c v + 1"
  shows "sum_list (map (\<lambda>kv. c (snd kv)) (upsert k d f kvs)) =
         sum_list (map (\<lambda>kv. c (snd kv)) kvs) + 1"
proof (cases "map_of kvs k")
  case None
  with assms(2) assms(3) [of d] show ?thesis by (simp add: upsert_def)
next
  case (Some v)
  from sum_update_key [OF assms(1) Some, of c f] assms(3) [of v] Some show ?thesis
    by (simp add: upsert_def)
qed

text \<open>A fold that groups by a key and counts: the counts add up to the number of records.\<close>

lemma grouping_counts:
  fixes c :: "'v \<Rightarrow> nat" and key :: "'t \<Rightarrow> error + 'k"
  assumes step: "\<And>a t. step a t =
      (case key t of Inl e \<Rightarrow> Inl e | Inr k \<Rightarrow> Inr (upsert k (d k t) (f t) a))"
    and d0: "\<And>k t. c (d k t) = 0"
    and f1: "\<And>t v. c (f t v) = c v + 1"
    and dist: "distinct (map fst acc)"
    and ok: "\<forall>t\<in>set ts. \<exists>k. key t = Inr k"
  shows "\<exists>r. foldE step acc ts = Inr r \<and> distinct (map fst r) \<and>
           sum_list (map (\<lambda>kv. c (snd kv)) r) =
           sum_list (map (\<lambda>kv. c (snd kv)) acc) + length ts"
  using dist ok
proof (induction ts arbitrary: acc)
  case Nil
  then show ?case by simp
next
  case (Cons t ts)
  from Cons.prems(2) obtain k where k: "key t = Inr k" by auto
  let ?a = "upsert k (d k t) (f t) acc"
  have s: "step acc t = Inr ?a" by (simp add: step k)
  have da: "distinct (map fst ?a)" using Cons.prems(1) by (rule distinct_upsert)
  have sa: "sum_list (map (\<lambda>kv. c (snd kv)) ?a) = sum_list (map (\<lambda>kv. c (snd kv)) acc) + 1"
    using Cons.prems(1) d0 [of k t] f1 [of t] by (rule sum_upsert)
  from Cons.prems(2) have "\<forall>t\<in>set ts. \<exists>k. key t = Inr k" by simp
  from Cons.IH [OF da this] obtain r where "foldE step ?a ts = Inr r"
    and "distinct (map fst r)"
    and "sum_list (map (\<lambda>kv. c (snd kv)) r) = sum_list (map (\<lambda>kv. c (snd kv)) ?a) + length ts"
    by blast
  with s sa show ?case by simp
qed

lemma foldE_Inr: "foldE (\<lambda>a x. Inr (g a x)) acc xs = Inr (foldl g acc xs)"
  by (induction xs arbitrary: acc) simp_all

lemma format_ok: "parseISO L s = Some ms \<Longrightarrow> format L (parseISO L s) p = Inr (fmt L p ms)"
  by (simp add: format_def)

section \<open>The groupings\<close>

lemma dates_format:
  "\<forall>t\<in>set ts. parseISO L (created t) \<noteq> None \<Longrightarrow>
   \<forall>t\<in>set ts. \<exists>k. format L (parseISO L (created t)) p = Inr k"
  by (auto simp: format_def)

lemma foldl_count_sort_by:
  fixes c :: "'v \<Rightarrow> nat"
  shows "foldl (\<lambda>sum d. sum + c d) 0 (sort_by cmp (map snd r)) =
         sum_list (map (\<lambda>kv. c (snd kv)) r)"
  by (simp add: foldl_plus_sum_list_nat sum_list_sort_by comp_def)

lemma dailyData_counts:
  assumes "\<forall>t\<in>set ts. parseISO L (created t) \<noteq> None"
  shows "\<exists>r. foldE (dailyStep L) [] ts = Inr r \<and> distinct (map fst r) \<and>
           sum_list (map (\<lambda>kv. DailyData.count (snd kv)) r) =
           sum_list (map (\<lambda>kv. DailyData.count (snd kv)) ([] :: (string \<times> DailyData) list)) + length ts"
proof -
  from dates_format [OF assms, of "''MMM dd''"]
  have ok: "\<forall>t\<in>set ts. \<exists>k. format L (parseISO L (created t)) ''MMM dd'' = Inr k" .
  show ?thesis
    by (rule grouping_counts [where key = "\<lambda>t::Transaction. format L (parseISO L (created t)) ''MMM dd''"
          and d = "\<lambda>k (t::Transaction). \<lparr>DailyData.date = k, DailyData.volume = Fin 0, DailyData.count = 0,
                  DailyData.avgSize = Fin 0, DailyData.rawDate = parseISO L (created t)\<rparr>"
          and f = "\<lambda>(t::Transaction) x. let v = DailyData.volume x + \<bar>or_num (customerFacingAmount t) (Fin 0)\<bar>;
                      c = DailyData.count x + 1
                  in x\<lparr>DailyData.volume := v, DailyData.count := c,
                       DailyData.avgSize := v / num c\<rparr>"
          and c = "DailyData.count :: DailyData \<Rightarrow> nat", OF _ _ _ _ ok])
      (simp_all add: dailyStep_def Let_def)
qed

lemma TransactionChart_total:
  assumes "\<forall>t\<in>set ts. parseISO L (created t) \<noteq> None"
  shows "TransactionChart_totalCount L ts = Inr (length ts)"
proof -
  from dailyData_counts [OF assms] obtain r where "foldE (dailyStep L) [] ts = Inr r"
    and "sum_list (map (\<lambda>kv. DailyData.count (snd kv)) r) = length ts"
    by auto
  then show ?thesis
    by (simp add: TransactionChart_totalCount_def sortedDays_def foldl_count_sort_by)
qed

lemma hourlyData_counts:
  assumes "\<forall>t\<in>set ts. parseISO L (created t) \<noteq> None"
  shows "\<exists>r. foldE (hourlyStep L) [] ts = Inr r \<and> distinct (map fst r) \<and>
           sum_list (map (\<lambda>kv. HourlyData.count (snd kv)) r) =
           sum_list (map (\<lambda>kv. HourlyData.count (snd kv)) ([] :: (string \<times> HourlyData) list)) + length ts"
proof -
  from dates_format [OF assms, of "''HH:00''"]
  have ok: "\<forall>t\<in>set ts. \<exists>k. format L (parseISO L (created t)) ''HH:00'' = Inr k" .
  show ?thesis
    by (rule grouping_counts [where key = "\<lambda>t::Transaction. format L (parseISO L (created t)) ''HH:00''"
          and d = "\<lambda>k (t::Transaction). \<lparr>hour = k, HourlyData.count = 0, HourlyData.volume = Fin 0,
                  HourlyData.avgSize = Fin 0, transactions = []\<rparr>"
          and f = "\<lambda>(t::Transaction) x. let c = HourlyData.count x + 1;
                      v = HourlyData.volume x + \<bar>or_num (customerFacingAmount t) (Fin 0)\<bar>
                  in x\<lparr>HourlyData.count := c, HourlyData.volume := v,
                       transactions := transactions x @ [t],
                       HourlyData.avgSize := v / num c\<rparr>"
          and c = "HourlyData.count :: HourlyData \<Rightarrow> nat", OF _ _ _ _ ok])
      (simp_all add: hourlyStep_def Let_def)
qed

lemma reduce1_nonempty: "xs \<noteq> [] \<Longrightarrow> \<exists>y. reduce1 f xs = Inr y"
  by (cases xs) (simp_all add: reduce1_def)

lemma TransactionVelocity_total:
  assumes "ts \<noteq> []" and "\<forall>t\<in>set ts. parseISO L (created t) \<noteq> None"
  shows "\<exists>v. TransactionVelocity L ts = Inr v \<and> Velocity.totalTransactions v = length ts"
proof -
  from hourlyData_counts [OF assms(2)] obtain r where r: "foldE (hourlyStep L) [] ts = Inr r"
    and c: "sum_list (map (\<lambda>kv. HourlyData.count (snd kv)) r) = length ts"
    by auto
  let ?hs = "sort_by (\<lambda>a b. localeCompare L (hour a) (hour b)) (map snd r)"
  have hs: "sortedHours L ts = Inr ?hs"
    by (simp add: sortedHours_def r)
  from c assms(1) have "r \<noteq> []" by auto
  then have "length ?hs \<noteq> 0" by simp
  then have ne: "?hs \<noteq> []" by (simp del: length_sort_by)
  from reduce1_nonempty [OF ne] obtain ph
    where ph: "reduce1 (\<lambda>peak current.
        if HourlyData.count current > HourlyData.count peak then current else peak) ?hs = Inr ph"
    by blast
  from reduce1_nonempty [OF ne] obtain pv
    where pv: "reduce1 (\<lambda>peak current.
        if js_gt (HourlyData.volume current) (HourlyData.volume peak)
        then current else peak) ?hs = Inr pv"
    by blast
  have t: "foldl (\<lambda>sum h. sum + HourlyData.count h) 0 ?hs = length ts"
    by (simp add: foldl_count_sort_by c)
  show ?thesis
    by (simp add: TransactionVelocity_def hs ph pv t Let_def)
qed

lemma monthlyData_counts:
  assumes "\<forall>t\<in>set ts. parseISO L (created t) \<noteq> None"
  shows "\<exists>md. monthlyData L ts = Inr md \<and> distinct (map fst md) \<and>
           sum_list (map (\<lambda>kv. MonthlyMetrics.count (snd kv)) md) =
           sum_list (map (\<lambda>kv. MonthlyMetrics.count (snd kv)) ([] :: (string \<times> MonthlyMetrics) list)) + length ts"
proof -
  from dates_format [OF assms, of "''MMM yyyy''"]
  have ok: "\<forall>t\<in>set ts. \<exists>k. format L (parseISO L (created t)) ''MMM yyyy'' = Inr k" .
  show ?thesis
    unfolding monthlyData_def
    by (rule grouping_counts [where key = "\<lambda>t::Transaction. format L (parseISO L (created t)) ''MMM yyyy''"
          and d = "\<lambda>k (t::Transaction). \<lparr>MonthlyMetrics.volume = Fin 0, MonthlyMetrics.count = 0,
                  MonthlyMetrics.avgSize = Fin 0, growth = Fin 0\<rparr>"
          and f = "\<lambda>(t::Transaction) x. x\<lparr>MonthlyMetrics.volume := MonthlyMetrics.volume x +
                             \<bar>or_num (customerFacingAmount t) (Fin 0)\<bar>,
                           MonthlyMetrics.count := MonthlyMetrics.count x + 1\<rparr>"
          and c = "MonthlyMetrics.count :: MonthlyMetrics \<Rightarrow> nat", OF _ _ _ _ ok])
      simp_all
qed

lemma grouping_counts_foldl:
  fixes c :: "'v \<Rightarrow> nat"
  assumes "\<And>t. c (d t) = 0" and "\<And>t v. c (f t v) = c v + 1" and "distinct (map fst acc)"
  shows "sum_list (map (\<lambda>kv. c (snd kv)) (foldl (\<lambda>a t. upsert (key t) (d t) (f t) a) acc ts)) =
         sum_list (map (\<lambda>kv. c (snd kv)) acc) + length ts"
proof -
  have "\<exists>r. foldE (\<lambda>a t. Inr (upsert (key t) (d t) (f t) a)) acc ts = Inr r \<and>
      distinct (map fst r) \<and>
      sum_list (map (\<lambda>kv. c (snd kv)) r) = sum_list (map (\<lambda>kv. c (snd kv)) acc) + length ts"
    by (rule grouping_counts [where key = "\<lambda>t. Inr (key t)" and d = "\<lambda>k t. d t" and f = f])
      (simp_all add: assms)
  then show ?thesis by (simp add: foldE_Inr)
qed

lemma CurrencyDistributionChart_total: "CurrencyDistributionChart_totalCount L ts = length ts"
proof -
  have "sum_list (map (\<lambda>kv. CurrencyMetrics.count (snd kv)) (currencyData L ts)) =
      sum_list (map (\<lambda>kv. CurrencyMetrics.count (snd kv)) ([] :: (string \<times> CurrencyMetrics) list)) + length ts"
    unfolding currencyData_def
    by (rule grouping_counts_foldl [where c = "CurrencyMetrics.count :: CurrencyMetrics \<Rightarrow> nat"])
      simp_all
  then show ?thesis
    by (simp add: CurrencyDistributionChart_totalCount_def foldl_plus_sum_list_nat comp_def)
qed

section \<open>The weekday grouping\<close>

lemma initialWeekdayData_eq:
  "initialWeekdayData =
     map (\<lambda>d. (d, \<lparr>day = d, WeekdayData.count = 0, WeekdayData.volume = Fin 0,
                     WeekdayData.avgSize = Fin 0\<rparr>)) weekdays"
  by (simp add: initialWeekdayData_def weekdays_def)

lemma initialWeekdayData_keys [simp]: "map fst initialWeekdayData = weekdays"
  by (simp add: initialWeekdayData_eq comp_def)

lemma distinct_weekdays [simp]: "distinct weekdays"
  by (simp add: weekdays_def)

lemma length_weekdays [simp]: "length weekdays = 7"
  by (simp add: weekdays_def)

lemma map_of_present: "k \<in> set (map fst kvs) \<Longrightarrow> \<exists>v. map_of kvs k = Some v"
  by (metis map_of_eq_None_iff not_Some_eq set_map)

lemma weekdayStep_cases:
  "weekdayStep L acc t =
     (case format L (parseISO L (created t)) ''EEEE'' of
        Inl e \<Rightarrow> Inl e
      | Inr d \<Rightarrow> if d \<in> set (map fst acc) then Inr (update_key d (weekdayUpdate t) acc)
                 else Inl TypeError)"
proof (cases "format L (parseISO L (created t)) ''EEEE''")
  case (Inl e)
  then show ?thesis by (simp add: weekdayStep_def)
next
  case (Inr d)
  show ?thesis
  proof (cases "map_of acc d")
    case None
    then have "d \<notin> set (map fst acc)" by (simp add: map_of_eq_None_iff)
    with None Inr show ?thesis by (simp add: weekdayStep_def)
  next
    case (Some w)
    then have "d \<in> set (map fst acc)" by (metis map_of_eq_None_iff option.distinct(1) set_map)
    with Some Inr show ?thesis by (simp add: weekdayStep_def weekdayUpdate_def [abs_def])
  qed
qed

lemma weekdayStep_Inr:
  assumes "weekdayStep L acc t = Inr a'"
  shows "\<exists>d. format L (parseISO L (created t)) ''EEEE'' = Inr d \<and>
             a' = update_key d (weekdayUpdate t) acc"
  using assms unfolding weekdayStep_cases by (auto split: sum.splits if_splits)

lemma weekday_fold:
  assumes "\<forall>t\<in>set ts. \<exists>ms. parseISO L (created t) = Some ms \<and>
             fmt L ''EEEE'' ms \<in> set (map fst acc)"
    and "distinct (map fst acc)"
  shows "\<exists>r. foldE (weekdayStep L) acc ts = Inr r \<and> map fst r = map fst acc \<and>
           sum_list (map (\<lambda>kv. WeekdayData.count (snd kv)) r) =
           sum_list (map (\<lambda>kv. WeekdayData.count (snd kv)) acc) + length ts"
  using assms
proof (induction ts arbitrary: acc)
  case Nil
  then show ?case by simp
next
  case (Cons t ts)
  from Cons.prems(1) obtain ms where ms: "parseISO L (created t) = Some ms"
    and k: "fmt L ''EEEE'' ms \<in> set (map fst acc)" by auto
  let ?k = "fmt L ''EEEE'' ms"
  let ?a = "update_key ?k (weekdayUpdate t) acc"
  have s: "weekdayStep L acc t = Inr ?a"
    using k by (simp add: weekdayStep_cases format_ok [OF ms])
  from map_of_present [OF k] obtain w where w: "map_of acc ?k = Some w" ..
  from sum_update_key [OF Cons.prems(2) w, of WeekdayData.count "weekdayUpdate t"]
  have sa: "sum_list (map (\<lambda>kv. WeekdayData.count (snd kv)) ?a) =
      sum_list (map (\<lambda>kv. WeekdayData.count (snd kv)) acc) + 1"
    by (simp add: weekdayUpdate_def)
  have p1: "\<forall>t\<in>set ts. \<exists>ms. parseISO L (created t) = Some ms \<and>
      fmt L ''EEEE'' ms \<in> set (map fst ?a)"
    using Cons.prems(1) by simp
  have p2: "distinct (map fst ?a)" using Cons.prems(2) by simp
  from Cons.IH [OF p1 p2] obtain r where "foldE (weekdayStep L) ?a ts = Inr r"
    and "map fst r = map fst ?a"
    and "sum_list (map (\<lambda>kv. WeekdayData.count (snd kv)) r) =
      sum_list (map (\<lambda>kv. WeekdayData.count (snd kv)) ?a) + length ts"
    by blast
  with s sa show ?case by simp
qed

lemma update_key_pairs:
  assumes "\<forall>kv\<in>set kvs. Q (fst kv) (snd kv)" and "\<And>v. Q k v \<Longrightarrow> Q k (f v)"
  shows "\<forall>kv\<in>set (update_key k f kvs). Q (fst kv) (snd kv)"
proof
  fix kv
  assume "kv \<in> set (update_key k f kvs)"
  then obtain k' v where m: "(k', v) \<in> set kvs"
    and kv: "kv = (if k' = k then (k', f v) else (k', v))"
    unfolding update_key_def by auto
  from m assms(1) have q: "Q k' v" by force
  show "Q (fst kv) (snd kv)"
  proof (cases "k' = k")
    case True
    with q assms(2) [of v] kv show ?thesis by simp
  next
    case False
    with q kv show ?thesis by simp
  qed
qed

lemma weekday_invariant:
  assumes "foldE (weekdayStep L) initialWeekdayData ts = Inr r"
  shows "\<forall>kv\<in>set r. weekdayInv (fst kv) (snd kv)"
  using assms
proof (rule foldE_invariant)
  show "\<forall>kv\<in>set initialWeekdayData. weekdayInv (fst kv) (snd kv)"
    by (simp add: initialWeekdayData_eq weekdayInv_def)
next
  fix a t a'
  assume i: "\<forall>kv\<in>set a. weekdayInv (fst kv) (snd kv)" and s: "weekdayStep L a t = Inr a'"
  from weekdayStep_Inr [OF s] obtain d where a': "a' = update_key d (weekdayUpdate t) a" by blast
  show "\<forall>kv\<in>set a'. weekdayInv (fst kv) (snd kv)"
    unfolding a' using i
    by (rule update_key_pairs) (simp add: weekdayInv_def weekdayUpdate_def)
qed

lemma weekday_untouched:
  assumes "foldE (weekdayStep L) acc ts = Inr r"
    and "\<forall>t\<in>set ts. format L (parseISO L (created t)) ''EEEE'' \<noteq> Inr k"
  shows "map_of r k = map_of acc k"
  using assms
proof (induction ts arbitrary: acc)
  case Nil
  then show ?case by simp
next
  case (Cons t ts)
  from Cons.prems(1) obtain a' where s: "weekdayStep L acc t = Inr a'"
    and r: "foldE (weekdayStep L) a' ts = Inr r"
    by (auto split: sum.splits)
  from weekdayStep_Inr [OF s] obtain d
    where d: "format L (parseISO L (created t)) ''EEEE'' = Inr d"
      and a': "a' = update_key d (weekdayUpdate t) acc" by blast
  from d Cons.prems(2) have "d \<noteq> k" by auto
  then have "map_of a' k = map_of acc k" by (simp add: a' map_of_update_key)
  moreover from Cons.prems(2) have "\<forall>t\<in>set ts. format L (parseISO L (created t)) ''EEEE'' \<noteq> Inr k"
    by simp
  from Cons.IH [OF r this] have "map_of r k = map_of a' k" .
  ultimately show ?case by simp
qed

lemma weekdayData_eq:
  "weekdayData L ts =
     (case foldE (weekdayStep L) initialWeekdayData ts of
        Inl e \<Rightarrow> Inl e
      | Inr acc \<Rightarrow> Inr (map (\<lambda>(k, w). (k, withAvgSize w)) acc))"
  unfolding weekdayData_def withAvgSize_def by (rule refl)

lemma withAvgSize_zero:
  "weekdayInv k w \<Longrightarrow> WeekdayData.count (withAvgSize w) = 0 \<Longrightarrow>
   WeekdayData.avgSize (withAvgSize w) = NaN"
  by (simp add: weekdayInv_def withAvgSize_def num_def)

lemma weekday_entries_lemma:
  assumes "\<forall>t\<in>set ts. \<exists>ms. parseISO L (created t) = Some ms \<and> fmt L ''EEEE'' ms \<in> set weekdays"
  shows "\<exists>wd. weekdayData L ts = Inr wd \<and>
           map fst wd = weekdays \<and>
           map (\<lambda>kv. day (snd kv)) wd = weekdays \<and>
           sum_list (map (\<lambda>kv. WeekdayData.count (snd kv)) wd) = length ts \<and>
           (\<forall>kv\<in>set wd. WeekdayData.count (snd kv) = 0 \<longrightarrow>
              WeekdayData.avgSize (snd kv) = NaN) \<and>
           (\<forall>k\<in>set weekdays.
              (\<forall>t\<in>set ts. format L (parseISO L (created t)) ''EEEE'' \<noteq> Inr k) \<longrightarrow>
              map_of wd k = Some \<lparr>day = k, WeekdayData.count = 0, WeekdayData.volume = Fin 0,
                                   WeekdayData.avgSize = NaN\<rparr>)"
proof -
  from assms have "\<forall>t\<in>set ts. \<exists>ms. parseISO L (created t) = Some ms \<and>
      fmt L ''EEEE'' ms \<in> set (map fst initialWeekdayData)"
    by simp
  from weekday_fold [OF this] obtain r
    where r: "foldE (weekdayStep L) initialWeekdayData ts = Inr r"
      and keys: "map fst r = weekdays"
      and total: "sum_list (map (\<lambda>kv. WeekdayData.count (snd kv)) r) = length ts"
    by (auto simp: initialWeekdayData_eq comp_def)
  let ?wd = "map (\<lambda>(k, w). (k, withAvgSize w)) r"
  have inv: "\<forall>kv\<in>set r. weekdayInv (fst kv) (snd kv)"
    using r by (rule weekday_invariant)
  have w: "weekdayData L ts = Inr ?wd"
    by (simp add: weekdayData_eq r)
  have k1: "map fst ?wd = weekdays"
    using keys by (simp add: comp_def case_prod_beta)
  have "map (\<lambda>kv. day (snd kv)) r = map fst r"
    using inv by (simp add: weekdayInv_def)
  then have k2: "map (\<lambda>kv. day (snd kv)) ?wd = weekdays"
    using keys by (simp add: comp_def case_prod_beta withAvgSize_def)
  have k3: "sum_list (map (\<lambda>kv. WeekdayData.count (snd kv)) ?wd) = length ts"
    using total by (simp add: comp_def case_prod_beta withAvgSize_def)
  have k4: "\<forall>kv\<in>set ?wd. WeekdayData.count (snd kv) = 0 \<longrightarrow>
      WeekdayData.avgSize (snd kv) = NaN"
  proof
    fix kv
    assume "kv \<in> set ?wd"
    then obtain k v where m: "(k, v) \<in> set r" and kv: "kv = (k, withAvgSize v)" by auto
    from m inv have "weekdayInv k v" by force
    from withAvgSize_zero [OF this] kv
    show "WeekdayData.count (snd kv) = 0 \<longrightarrow> WeekdayData.avgSize (snd kv) = NaN" by simp
  qed
  have k5: "map_of ?wd k = Some \<lparr>day = k, WeekdayData.count = 0, WeekdayData.volume = Fin 0,
        WeekdayData.avgSize = NaN\<rparr>"
    if k: "k \<in> set weekdays"
      and no: "\<forall>t\<in>set ts. format L (parseISO L (created t)) ''EEEE'' \<noteq> Inr k" for k
  proof -
    from weekday_untouched [OF r no] have "map_of r k = map_of initialWeekdayData k" .
    also have "\<dots> = Some \<lparr>day = k, WeekdayData.count = 0, WeekdayData.volume = Fin 0,
        WeekdayData.avgSize = Fin 0\<rparr>"
      using k by (simp add: initialWeekdayData_eq map_of_map_restrict)
    finally have "map_of r k = Some \<lparr>day = k, WeekdayData.count = 0,
        WeekdayData.volume = Fin 0, WeekdayData.avgSize = Fin 0\<rparr>" .
    then show ?thesis
      by (simp add: map_of_map withAvgSize_def num_def)
  qed
  from w k1 k2 k3 k4 k5 show ?thesis by blast
qed

section \<open>The value segments\<close>

lemma sum_update_first:
  fixes c :: "'a \<Rightarrow> nat"
  assumes "\<And>x. c (f x) = c x + 1"
  shows "sum_list (map c (update_first P f xs)) =
         sum_list (map c xs) + (if \<exists>x\<in>set xs. P x then 1 else 0)"
  by (induction xs) (simp_all add: assms)

lemma map_update_first:
  assumes "\<And>x. g (f x) = g x"
  shows "map g (update_first P f xs) = map g xs"
  by (induction xs) (simp_all add: assms)

lemma inSegment_srange:
  "(\<exists>s\<in>set segs. inSegment a s) =
   (\<exists>rg\<in>set (map srange segs). js_ge a (fst rg) \<and> js_lt a (snd rg))"
  by (auto simp: inSegment_def)

lemma categorize_count:
  assumes "map srange segs = map srange segments"
    and "\<exists>s\<in>set segments. inSegment (segmentAmount t) s"
  shows "sum_list (map ValueSegment.count (categorize segs t)) =
           sum_list (map ValueSegment.count segs) + 1"
    and "map srange (categorize segs t) = map srange segments"
proof -
  from assms have "\<exists>s\<in>set segs. inSegment (segmentAmount t) s"
    by (simp only: inSegment_srange)
  then show "sum_list (map ValueSegment.count (categorize segs t)) =
      sum_list (map ValueSegment.count segs) + 1"
    unfolding categorize_def
    by (subst sum_update_first) simp_all
  show "map srange (categorize segs t) = map srange segments"
    unfolding categorize_def using assms(1) by (subst map_update_first) simp_all
qed

lemma segments_fold:
  assumes "map srange segs = map srange segments"
    and "\<forall>t\<in>set ts. \<exists>s\<in>set segments. inSegment (segmentAmount t) s"
  shows "sum_list (map ValueSegment.count (foldl categorize segs ts)) =
         sum_list (map ValueSegment.count segs) + length ts"
  using assms
proof (induction ts arbitrary: segs)
  case Nil
  then show ?case by simp
next
  case (Cons t ts)
  from Cons.prems(2) have e: "\<exists>s\<in>set segments. inSegment (segmentAmount t) s" by simp
  from Cons.prems(2) have rest: "\<forall>t\<in>set ts. \<exists>s\<in>set segments. inSegment (segmentAmount t) s"
    by simp
  from Cons.IH [OF categorize_count(2) [OF Cons.prems(1) e] rest]
    categorize_count(1) [OF Cons.prems(1) e]
  show ?case by simp
qed

lemma ValueSegmentation_total:
  assumes "\<forall>t\<in>set ts. \<exists>s\<in>set segments. inSegment (segmentAmount t) s"
  shows "ValueSegmentation_totalTransactions ts = length ts"
proof -
  have "sum_list (map ValueSegment.count segments) = 0"
    by (simp add: segments_def)
  with segments_fold [OF refl assms] show ?thesis
    by (simp add: ValueSegmentation_totalTransactions_def ValueSegmentation_segments_def
        foldl_plus_sum_list_nat)
qed

lemma segments_exhaustive:
  assumes "customerFacingAmount t \<noteq> Some PInf" and "customerFacingAmount t \<noteq> Some NInf"
  shows "\<exists>s\<in>set segments. inSegment (segmentAmount t) s"
proof -
  have "segmentAmount t \<noteq> PInf"
  proof (cases "customerFacingAmount t")
    case None
    then show ?thesis by (simp add: segmentAmount_def or_num_def)
  next
    case (Some c)
    with assms show ?thesis
      by (cases c) (simp_all add: segmentAmount_def or_num_def truthy_num_def)
  qed
  with segmentAmount_cases [of t] obtain r where r: "0 \<le> r" "segmentAmount t = Fin r" by auto
  have "\<exists>s\<in>set segments. inSegment (Fin r) s"
    using r(1) by (simp add: segments_def inSegment_def js_ge_def js_le_def) linarith
  with r(2) show ?thesis by simp
qed

lemma WeekdayAnalysis_total:
  assumes "\<forall>t\<in>set ts. \<exists>ms. parseISO L (created t) = Some ms \<and> fmt L ''EEEE'' ms \<in> set weekdays"
  shows "WeekdayAnalysis_totalTransactions L ts = Inr (length ts)"
proof -
  from weekday_entries_lemma [OF assms] obtain wd where w: "weekdayData L ts = Inr wd"
    and k: "map fst wd = weekdays"
    and s: "sum_list (map (\<lambda>kv. WeekdayData.count (snd kv)) wd) = length ts"
    by blast
  from k have "length wd = 7" by (metis length_map length_weekdays)
  then have "map snd wd \<noteq> []" by auto
  from reduce1_nonempty [OF this] obtain p
    where p: "reduce1 (\<lambda>peak current.
        if WeekdayData.count current > WeekdayData.count peak then current else peak)
        (map snd wd) = Inr p"
    by blast
  show ?thesis
    using s by (simp add: WeekdayAnalysis_totalTransactions_def WeekdayAnalysis_peakDay_def w p
        foldl_plus_sum_list_nat comp_def)
qed

section \<open>The weekday aggregation\<close>

text \<open>
  Claim C7. When the date of every transaction parses (and \<^verbatim>\<open>format\<close> names its weekday
  in English, as it does by default), the weekday aggregation holds exactly seven entries,
  Sunday to Saturday in this order, whatever days the transactions fall on. A day
  without transactions keeps \<open>count = 0\<close> and \<open>volume = 0\<close>, and its \<open>avgSize\<close>, computed
  as \<open>0 / 0\<close>, is \<^verbatim>\<open>NaN\<close>: nothing is thrown.
\<close>

theorem weekday_entries:
  assumes "\<forall>t\<in>set ts. \<exists>ms. parseISO L (created t) = Some ms \<and> fmt L ''EEEE'' ms \<in> set weekdays"
  shows "\<exists>wd. weekdayData L ts = Inr wd \<and>
           map fst wd = weekdays \<and>
           map (\<lambda>kv. day (snd kv)) wd = weekdays \<and>
           length wd = 7 \<and>
           (\<forall>kv\<in>set wd. WeekdayData.count (snd kv) = 0 \<longrightarrow>
              WeekdayData.avgSize (snd kv) = NaN) \<and>
           (\<forall>k\<in>set weekdays.
              (\<forall>t\<in>set ts. format L (parseISO L (created t)) ''EEEE'' \<noteq> Inr k) \<longrightarrow>
              map_of wd k = Some \<lparr>day = k, WeekdayData.count = 0, WeekdayData.volume = Fin 0,
                                   WeekdayData.avgSize = NaN\<rparr>)"
proof -
  from weekday_entries_lemma [OF assms] obtain wd where w: "weekdayData L ts = Inr wd"
    and k1: "map fst wd = weekdays"
    and k2: "map (\<lambda>kv. day (snd kv)) wd = weekdays"
    and k4: "\<forall>kv\<in>set wd. WeekdayData.count (snd kv) = 0 \<longrightarrow>
              WeekdayData.avgSize (snd kv) = NaN"
    and k5: "\<forall>k\<in>set weekdays.
              (\<forall>t\<in>set ts. format L (parseISO L (created t)) ''EEEE'' \<noteq> Inr k) \<longrightarrow>
              map_of wd k = Some \<lparr>day = k, WeekdayData.count = 0, WeekdayData.volume = Fin 0,
                                   WeekdayData.avgSize = NaN\<rparr>"
    by blast
  from k1 have "length wd = 7" by (metis length_map length_weekdays)
  with w k1 k2 k4 k5 show ?thesis by blast
qed

lemma sample_week:
  "\<forall>t\<in>set [tx1, tx2]. \<exists>ms. parseISO sampleLibs (created t) = Some ms \<and>
      fmt sampleLibs ''EEEE'' ms \<in> set weekdays"
  by (simp add: sample_defs weekdays_def)

theorem weekday_entries_witness:
  "\<exists>wd. weekdayData sampleLibs [tx1, tx2] = Inr wd \<and> map fst wd = weekdays \<and>
      length wd = 7 \<and>
      map_of wd ''Tuesday'' =
        Some \<lparr>day = ''Tuesday'', WeekdayData.count = 0, WeekdayData.volume = Fin 0,
              WeekdayData.avgSize = NaN\<rparr>"
proof -
  have n: "\<forall>t\<in>set [tx1, tx2].
      format sampleLibs (parseISO sampleLibs (created t)) ''EEEE'' \<noteq> Inr ''Tuesday''"
    by (simp add: sample_defs format_def)
  have m: "''Tuesday'' \<in> set weekdays"
    by (simp add: weekdays_def)
  from weekday_entries [OF sample_week] n m show ?thesis by blast
qed

section \<open>The first segment of an amount\<close>

lemma update_first_nth:
  "j < length xs \<Longrightarrow> P (xs ! j) \<Longrightarrow> (\<forall>i<j. \<not> P (xs ! i)) \<Longrightarrow>
   update_first P f xs = xs[j := f (xs ! j)]"
proof (induction xs arbitrary: j)
  case Nil
  then show ?case by simp
next
  case (Cons x xs)
  show ?case
  proof (cases j)
    case 0
    with Cons.prems show ?thesis by simp
  next
    case (Suc k)
    with Cons.prems have "\<not> P x" by auto
    moreover from Suc Cons.prems have "k < length xs" "P (xs ! k)" "\<forall>i<k. \<not> P (xs ! i)"
      by auto
    ultimately show ?thesis using Cons.IH [of k] Suc by simp
  qed
qed

lemma js_lt_PInf: "\<not> js_lt PInf y"
  by (cases y) simp_all

lemma length_segments: "length segments = 5"
  by (simp add: segments_def)

lemma spec_segmentIndex_Some:
  "spec_segmentIndex a = Some j \<longleftrightarrow>
     j < 5 \<and> js_lt a (snd (srange (segments ! j))) \<and>
     (\<forall>i<j. \<not> js_lt a (snd (srange (segments ! i))))"
proof -
  have l: "length segments = 5" by (simp add: segments_def)
  show ?thesis
    unfolding spec_segmentIndex_def find_Some_iff l by auto
qed

lemma spec_segmentIndex_None:
  "spec_segmentIndex a = None \<longleftrightarrow> (\<forall>i<5. \<not> js_lt a (snd (srange (segments ! i))))"
proof -
  have l: "length segments = 5" by (simp add: segments_def)
  show ?thesis
    unfolding spec_segmentIndex_def find_None_iff l by auto
qed

lemma segment_lower:
  assumes "0 \<le> r" and "j < 5"
    and "\<forall>i<j. \<not> js_lt (Fin r) (snd (srange (segments ! i)))"
  shows "js_ge (Fin r) (fst (srange (segments ! j)))"
proof -
  from assms(2) consider "j = 0" | "j = 1" | "j = 2" | "j = 3" | "j = 4" by linarith
  then show ?thesis
  proof cases
    case 1
    with assms(1) show ?thesis by (simp add: segments_def js_ge_def js_le_def)
  next
    case 2
    with assms(3) [rule_format, of 0] show ?thesis
      by (simp add: segments_def js_ge_def js_le_def)
  next
    case 3
    with assms(3) [rule_format, of 1] show ?thesis
      by (simp add: segments_def js_ge_def js_le_def)
  next
    case 4
    with assms(3) [rule_format, of 2] show ?thesis
      by (simp add: segments_def js_ge_def js_le_def)
  next
    case 5
    with assms(3) [rule_format, of 3] show ?thesis
      by (simp add: segments_def js_ge_def js_le_def)
  qed
qed

lemma categorize_bucket:
  assumes "map srange segs = map srange segments"
  shows "categorize segs t =
     (case spec_segmentIndex (segmentAmount t) of
        None \<Rightarrow> segs
      | Some j \<Rightarrow>
          segs[j := (segs ! j)\<lparr>ValueSegment.count := ValueSegment.count (segs ! j) + 1,
                  ValueSegment.volume := ValueSegment.volume (segs ! j) + segmentAmount t\<rparr>])"
proof -
  let ?a = "segmentAmount t"
  have "length (map srange segs) = length (map srange segments)" using assms by simp
  then have len: "length segs = 5" by (simp add: length_segments)
  have rg: "srange (segs ! i) = srange (segments ! i)" if "i < 5" for i
  proof -
    from that len have "srange (segs ! i) = map srange segs ! i" by simp
    also have "\<dots> = map srange segments ! i" by (simp only: assms)
    also from that have "\<dots> = srange (segments ! i)" by (simp add: length_segments)
    finally show ?thesis .
  qed
  show ?thesis
  proof (cases "spec_segmentIndex ?a")
    case None
    with spec_segmentIndex_None [of ?a]
    have no: "\<forall>i<5. \<not> js_lt ?a (snd (srange (segments ! i)))"
      by blast
    have "find (inSegment ?a) segs = None"
      unfolding find_None_iff
    proof (intro notI, elim exE conjE)
      fix x
      assume "x \<in> set segs" and p: "inSegment ?a x"
      then obtain i where i: "i < 5" and x: "x = segs ! i"
        using len by (auto simp: in_set_conv_nth)
      from p x rg [OF i] have "js_lt ?a (snd (srange (segments ! i)))"
        by (simp add: inSegment_def)
      with no i show False by simp
    qed
    with None show ?thesis by (simp add: categorize_def update_first_none)
  next
    case (Some j)
    with spec_segmentIndex_Some [of ?a j]
    have "j < 5 \<and> js_lt ?a (snd (srange (segments ! j))) \<and>
        (\<forall>i<j. \<not> js_lt ?a (snd (srange (segments ! i))))"
      by blast
    then have j: "j < 5" and lt: "js_lt ?a (snd (srange (segments ! j)))"
      and first: "\<forall>i<j. \<not> js_lt ?a (snd (srange (segments ! i)))"
      by blast+
    from lt segmentAmount_cases [of t] obtain r where r: "0 \<le> r" "?a = Fin r"
      by (auto simp: js_lt_PInf)
    from segment_lower [OF r(1) j] first r(2)
    have "js_ge ?a (fst (srange (segments ! j)))" by simp
    with lt rg [OF j] have p: "inSegment ?a (segs ! j)" by (simp add: inSegment_def)
    have n: "\<forall>i<j. \<not> inSegment ?a (segs ! i)"
    proof (intro allI impI)
      fix i
      assume i: "i < j"
      with j have "i < 5" by simp
      from rg [OF this] first i show "\<not> inSegment ?a (segs ! i)" by (simp add: inSegment_def)
    qed
    from j len have "j < length segs" by simp
    from update_first_nth [OF this, of "inSegment ?a", OF p n] Some show ?thesis
      by (simp add: categorize_def)
  qed
qed

lemma categorize_srange: "map srange (categorize segs t) = map srange segs"
  unfolding categorize_def by (rule map_update_first) simp

lemma segments_fold_srange: "map srange (foldl categorize segs ts) = map srange segs"
  by (induction ts arbitrary: segs) (simp_all add: categorize_srange)

lemma categorize_nth:
  assumes "map srange segs = map srange segments" and "j < 5"
  shows "ValueSegment.count (categorize segs t ! j) =
           ValueSegment.count (segs ! j) +
           (if spec_segmentIndex (segmentAmount t) = Some j then 1 else 0)"
    and "ValueSegment.volume (categorize segs t ! j) =
           ValueSegment.volume (segs ! j) +
           (if spec_segmentIndex (segmentAmount t) = Some j then segmentAmount t else Fin 0)"
proof -
  have "length (map srange segs) = length (map srange segments)" using assms(1) by simp
  then have len: "length segs = 5" by (simp add: length_segments)
  show "ValueSegment.count (categorize segs t ! j) =
           ValueSegment.count (segs ! j) +
           (if spec_segmentIndex (segmentAmount t) = Some j then 1 else 0)"
  proof (cases "spec_segmentIndex (segmentAmount t)")
    case None
    then show ?thesis by (simp add: categorize_bucket [OF assms(1)])
  next
    case (Some k)
    with spec_segmentIndex_Some [of "segmentAmount t" k] have "k < 5" by blast
    with Some len assms(2) show ?thesis
      by (simp add: categorize_bucket [OF assms(1)] nth_list_update)
  qed
  show "ValueSegment.volume (categorize segs t ! j) =
           ValueSegment.volume (segs ! j) +
           (if spec_segmentIndex (segmentAmount t) = Some j then segmentAmount t else Fin 0)"
  proof (cases "spec_segmentIndex (segmentAmount t)")
    case None
    then show ?thesis by (simp add: categorize_bucket [OF assms(1)])
  next
    case (Some k)
    with spec_segmentIndex_Some [of "segmentAmount t" k] have "k < 5" by blast
    with Some len assms(2) show ?thesis
      by (simp add: categorize_bucket [OF assms(1)] nth_list_update)
  qed
qed

lemma segments_fold_nth:
  assumes "map srange segs = map srange segments" and "j < 5"
  shows "ValueSegment.count (foldl categorize segs ts ! j) =
           ValueSegment.count (segs ! j) +
           length (filter (\<lambda>t. spec_segmentIndex (segmentAmount t) = Some j) ts) \<and>
         ValueSegment.volume (foldl categorize segs ts ! j) =
           ValueSegment.volume (segs ! j) +
           sum_list (map segmentAmount
             (filter (\<lambda>t. spec_segmentIndex (segmentAmount t) = Some j) ts))"
  using assms(1)
proof (induction ts arbitrary: segs)
  case Nil
  then show ?case by simp
next
  case (Cons t ts)
  have r: "map srange (categorize segs t) = map srange segments"
    using Cons.prems by (simp add: categorize_srange)
  from Cons.IH [OF r] categorize_nth [OF Cons.prems assms(2), of t]
  show ?case by (simp add: add.assoc)
qed

section \<open>The processing-time distribution\<close>

lemma map_of_upsert:
  "map_of (upsert k d f kvs) k' =
     (if k' = k then Some (f (case map_of kvs k of None \<Rightarrow> d | Some v \<Rightarrow> v))
      else map_of kvs k')"
proof (cases "map_of kvs k")
  case None
  then show ?thesis by (simp add: upsert_def map_add_def split: option.splits)
next
  case (Some v)
  then show ?thesis by (simp add: upsert_def map_of_update_key)
qed

lemma counting_fold:
  "(case map_of (foldl (\<lambda>acc x. upsert (g x) 0 Suc acc) acc xs) k of
      None \<Rightarrow> 0 | Some c \<Rightarrow> c) =
   (case map_of acc k of None \<Rightarrow> 0 | Some c \<Rightarrow> c) + length (filter (\<lambda>x. g x = k) xs)"
proof (induction xs arbitrary: acc)
  case Nil
  then show ?case by simp
next
  case (Cons x xs)
  show ?case
    by (simp add: Cons.IH map_of_upsert split: option.splits)
qed

lemma distributionData_counts:
  "distributionData tms = map (\<lambda>i. length (filter (\<lambda>x. intervalOf x = i) tms)) intervals"
proof -
  have "(case map_of (distribution tms) i of None \<Rightarrow> 0 | Some c \<Rightarrow> if c \<noteq> 0 then c else 0) =
      length (filter (\<lambda>x. intervalOf x = i) tms)" for i
    using counting_fold [of intervalOf "[]" tms i]
    by (simp add: distribution_def split: option.splits)
  then show ?thesis by (simp add: distributionData_def)
qed

lemma sum_list_indicator:
  "distinct ks \<Longrightarrow>
   sum_list (map (\<lambda>i. if k = i then 1 else 0 :: nat) ks) = (if k \<in> set ks then 1 else 0)"
  by (induction ks) auto

lemma counts_partition:
  assumes "distinct ks" and "\<forall>x\<in>set xs. g x \<in> set ks"
  shows "sum_list (map (\<lambda>i. length (filter (\<lambda>x. g x = i) xs)) ks) = length xs"
  using assms(2)
proof (induction xs)
  case Nil
  then show ?case by simp
next
  case (Cons x xs)
  have "sum_list (map (\<lambda>i. length (filter (\<lambda>x. g x = i) (x # xs))) ks) =
      sum_list (map (\<lambda>i. (if g x = i then 1 else 0) + length (filter (\<lambda>x. g x = i) xs)) ks)"
    by (rule arg_cong [where f = sum_list], rule map_cong) simp_all
  also have "\<dots> = sum_list (map (\<lambda>i. if g x = i then 1 else 0) ks) +
      sum_list (map (\<lambda>i. length (filter (\<lambda>x. g x = i) xs)) ks)"
    by (simp add: sum_list_addf)
  also have "\<dots> = 1 + length xs"
    using Cons assms(1) by (simp add: sum_list_indicator)
  finally show ?case by simp
qed

lemma intervalOf_intervals: "intervalOf time \<in> set intervals"
  by (simp add: intervalOf_chain intervals_def)

lemma distributionData_total: "sum_list (distributionData tms) = length tms"
  unfolding distributionData_counts
proof (rule counts_partition)
  show "distinct intervals" by (simp add: intervals_def)
  show "\<forall>x\<in>set tms. intervalOf x \<in> set intervals" by (simp add: intervalOf_intervals)
qed

section \<open>Latencies\<close>




lemma msum_update_key:
  fixes c :: "'v \<Rightarrow> 'm::cancel_comm_monoid_add"
  assumes "distinct (map fst kvs)" and "map_of kvs k = Some v"
  shows "sum_list (map (\<lambda>kv. c (snd kv)) (update_key k f kvs)) + c v =
         sum_list (map (\<lambda>kv. c (snd kv)) kvs) + c (f v)"
  using assms
proof (induction kvs)
  case Nil
  then show ?case by simp
next
  case (Cons a kvs)
  obtain k' v' where a: "a = (k', v')" by (cases a)
  show ?case
  proof (cases "k' = k")
    case True
    with Cons.prems a have "v' = v" and "k \<notin> set (map fst kvs)" by auto
    with True a show ?thesis by (simp add: update_key_absent ac_simps)
  next
    case False
    with Cons.prems a have "distinct (map fst kvs)" and "map_of kvs k = Some v" by auto
    from Cons.IH [OF this]
    have "c v' + (sum_list (map (\<lambda>kv. c (snd kv)) (update_key k f kvs)) + c v) =
        c v' + (sum_list (map (\<lambda>kv. c (snd kv)) kvs) + c (f v))"
      by simp
    with False a show ?thesis by (simp add: ac_simps)
  qed
qed

lemma msum_upsert:
  fixes c :: "'v \<Rightarrow> 'm::cancel_comm_monoid_add"
  assumes "distinct (map fst kvs)" and "c d = 0" and "\<And>v. c (f v) = c v + w"
  shows "sum_list (map (\<lambda>kv. c (snd kv)) (upsert k d f kvs)) =
         sum_list (map (\<lambda>kv. c (snd kv)) kvs) + w"
proof (cases "map_of kvs k")
  case None
  with assms(2) assms(3) [of d] show ?thesis by (simp add: upsert_def)
next
  case (Some v)
  from msum_update_key [OF assms(1) Some, of c f] assms(3) [of v]
  have "sum_list (map (\<lambda>kv. c (snd kv)) (update_key k f kvs)) + c v =
      (sum_list (map (\<lambda>kv. c (snd kv)) kvs) + w) + c v"
    by (simp add: ac_simps)
  then have "sum_list (map (\<lambda>kv. c (snd kv)) (update_key k f kvs)) =
      sum_list (map (\<lambda>kv. c (snd kv)) kvs) + w"
    by (rule add_right_imp_eq)
  with Some show ?thesis by (simp add: upsert_def)
qed

text \<open>A fold that groups by a key: what the groups hold is what the records brought.\<close>

lemma grouping_sums:
  fixes c :: "'v \<Rightarrow> 'm::cancel_comm_monoid_add" and key :: "'t \<Rightarrow> error + 'k"
  assumes step: "\<And>a t. step a t =
      (case key t of Inl e \<Rightarrow> Inl e | Inr k \<Rightarrow> Inr (upsert k (d k t) (f t) a))"
    and d0: "\<And>k t. c (d k t) = 0"
    and f1: "\<And>t v. c (f t v) = c v + w t"
    and dist: "distinct (map fst acc)"
    and ok: "\<forall>t\<in>set ts. \<exists>k. key t = Inr k"
  shows "\<exists>r. foldE step acc ts = Inr r \<and> distinct (map fst r) \<and>
           sum_list (map (\<lambda>kv. c (snd kv)) r) =
           sum_list (map (\<lambda>kv. c (snd kv)) acc) + sum_list (map w ts)"
  using dist ok
proof (induction ts arbitrary: acc)
  case Nil
  then show ?case by simp
next
  case (Cons t ts)
  from Cons.prems(2) obtain k where k: "key t = Inr k" by auto
  let ?a = "upsert k (d k t) (f t) acc"
  have s: "step acc t = Inr ?a" by (simp add: step k)
  have da: "distinct (map fst ?a)" using Cons.prems(1) by (rule distinct_upsert)
  have sa: "sum_list (map (\<lambda>kv. c (snd kv)) ?a) = sum_list (map (\<lambda>kv. c (snd kv)) acc) + w t"
    using Cons.prems(1) d0 [of k t] f1 [of t] by (rule msum_upsert)
  from Cons.prems(2) have "\<forall>t\<in>set ts. \<exists>k. key t = Inr k" by simp
  from Cons.IH [OF da this] obtain r where "foldE step ?a ts = Inr r"
    and "distinct (map fst r)"
    and "sum_list (map (\<lambda>kv. c (snd kv)) r) =
      sum_list (map (\<lambda>kv. c (snd kv)) ?a) + sum_list (map w ts)"
    by blast
  with s sa show ?case by (simp add: ac_simps)
qed

lemma positive_latencies:
  "sum_list (map (\<lambda>t. if js_gt (g t) (Fin 0) then {#g t#} else {#}) ts) =
   mset (filter (\<lambda>x. js_gt x (Fin 0)) (map g ts))"
  by (induction ts) simp_all

lemma dailyGroups_times:
  assumes "\<forall>t\<in>set ts. parseISO L (created t) \<noteq> None"
  shows "\<exists>gs. dailyGroups L ts = Inr gs \<and>
           mset (concat (map (\<lambda>kv. group_times (snd kv)) gs)) =
           mset (filter (\<lambda>x. js_gt x (Fin 0)) (map (calculateProcessingTime L) ts))"
proof -
  from dates_format [OF assms, of "''MMM dd''"]
  have ok: "\<forall>t\<in>set ts. \<exists>k. format L (parseISO L (created t)) ''MMM dd'' = Inr k" .
  have "\<exists>gs. dailyGroups L ts = Inr gs \<and> distinct (map fst gs) \<and>
      sum_list (map (\<lambda>kv. mset (group_times (snd kv))) gs) =
      sum_list (map (\<lambda>kv. mset (group_times (snd kv))) ([] :: (string \<times> DailyGroup) list)) +
      sum_list (map (\<lambda>t. if js_gt (calculateProcessingTime L t) (Fin 0)
                          then {#calculateProcessingTime L t#} else {#}) ts)"
    unfolding dailyGroups_def
    by (rule grouping_sums [where key = "\<lambda>t::Transaction. format L (parseISO L (created t)) ''MMM dd''"
          and d = "\<lambda>k (t::Transaction). \<lparr>group_times = [], group_date = k\<rparr>"
          and f = "\<lambda>(t::Transaction) g. if js_gt (calculateProcessingTime L t) (Fin 0)
                        then g\<lparr>group_times := group_times g @ [calculateProcessingTime L t]\<rparr>
                        else g"
          and c = "\<lambda>g::DailyGroup. mset (group_times g)", OF _ _ _ _ ok])
      simp_all
  then obtain gs where g: "dailyGroups L ts = Inr gs"
    and s: "sum_list (map (\<lambda>kv. mset (group_times (snd kv))) gs) =
      mset (filter (\<lambda>x. js_gt x (Fin 0)) (map (calculateProcessingTime L) ts))"
    by (auto simp: positive_latencies)
  have "mset (concat (map (\<lambda>kv. group_times (snd kv)) gs)) =
      sum_list (map (\<lambda>kv. mset (group_times (snd kv))) gs)"
    by (simp add: mset_concat comp_def)
  with g s show ?thesis by simp
qed



section \<open>The hours of TransactionMetrics\<close>

lemma basicMetrics_hourly:
  "hourlyDistribution (basicMetrics n t acc) = hourlyDistribution acc"
  by (simp add: basicMetrics_def Let_def)

lemma exchangeRateMetrics_hourly:
  "hourlyDistribution (exchangeRateMetrics t acc) = hourlyDistribution acc"
  by (simp add: exchangeRateMetrics_def Let_def split: option.splits)

lemma sizeMetrics_hourly:
  "hourlyDistribution (sizeMetrics L t acc) = hourlyDistribution acc"
  by (simp add: sizeMetrics_def Let_def)

lemma timeMetrics_hourly:
  "timeMetrics L t acc = Inr a \<Longrightarrow>
   \<exists>h. hourlyDistribution a = upsert h 0 Suc (hourlyDistribution acc)"
  by (auto simp: timeMetrics_def split: option.splits)

lemma metricsStep_hourly:
  assumes "metricsStep L n acc t = Inr acc'"
  shows "distinct (map fst (hourlyDistribution acc)) \<Longrightarrow>
         distinct (map fst (hourlyDistribution acc')) \<and>
         sum_list (map snd (hourlyDistribution acc')) =
           sum_list (map snd (hourlyDistribution acc)) +
           (if txn_type t = Some ''payment'' then 1 else 0)"
proof (cases "txn_type t = Some ''payment''")
  case False
  with assms have "acc' = acc" by (simp add: metricsStep_def)
  with False show "distinct (map fst (hourlyDistribution acc)) \<Longrightarrow> ?thesis" by simp
next
  case True
  assume d: "distinct (map fst (hourlyDistribution acc))"
  from True assms obtain a
    where a: "timeMetrics L t (exchangeRateMetrics t (basicMetrics n t acc)) = Inr a"
      and acc': "acc' = sizeMetrics L t a"
    by (auto simp: metricsStep_def split: sum.splits)
  from timeMetrics_hourly [OF a] obtain h
    where h: "hourlyDistribution a = upsert h 0 Suc (hourlyDistribution acc)"
    by (auto simp: exchangeRateMetrics_hourly basicMetrics_hourly)
  have "sum_list (map (\<lambda>kv. (\<lambda>v. v) (snd kv)) (upsert h 0 Suc (hourlyDistribution acc))) =
      sum_list (map (\<lambda>kv. (\<lambda>v. v) (snd kv)) (hourlyDistribution acc)) + 1"
    using d by (rule sum_upsert) simp_all
  with True h acc' distinct_upsert [OF d, of h 0 Suc] show ?thesis
    by (simp add: sizeMetrics_hourly)
qed

lemma metrics_fold_hourly:
  "foldE (metricsStep L n) acc ts = Inr m \<Longrightarrow> distinct (map fst (hourlyDistribution acc)) \<Longrightarrow>
   distinct (map fst (hourlyDistribution m)) \<and>
   sum_list (map snd (hourlyDistribution m)) =
     sum_list (map snd (hourlyDistribution acc)) +
     length (filter (\<lambda>t. txn_type t = Some ''payment'') ts)"
proof (induction ts arbitrary: acc)
  case Nil
  then show ?case by simp
next
  case (Cons t ts)
  from Cons.prems(1) obtain acc' where s: "metricsStep L n acc t = Inr acc'"
    and r: "foldE (metricsStep L n) acc' ts = Inr m"
    by (auto split: sum.splits)
  from metricsStep_hourly [OF s Cons.prems(2)]
  have d: "distinct (map fst (hourlyDistribution acc'))"
    and c: "sum_list (map snd (hourlyDistribution acc')) =
      sum_list (map snd (hourlyDistribution acc)) +
      (if txn_type t = Some ''payment'' then 1 else 0)"
    by simp_all
  from Cons.IH [OF r d] c show ?case by simp
qed

lemma transaction_metrics_hourly:
  assumes "\<forall>t\<in>set ts. txn_type t = Some ''payment'' \<longrightarrow> newDate L (created t) \<noteq> None"
  shows "\<exists>m. TransactionMetrics_metrics L ts = Inr m \<and>
           sum_list (map snd (hourlyDistribution m)) =
           length (filter (\<lambda>t. txn_type t = Some ''payment'') ts)"
proof -
  from assms have "\<exists>m. foldE (metricsStep L (length ts)) initialMetrics ts = Inr m"
    by (intro foldE_ok metricsStep_ok) auto
  then obtain m where m: "foldE (metricsStep L (length ts)) initialMetrics ts = Inr m" ..
  have "distinct (map fst (hourlyDistribution initialMetrics))"
    by (simp add: initialMetrics_def)
  from metrics_fold_hourly [OF m this] m show ?thesis
    by (simp add: TransactionMetrics_metrics_def initialMetrics_def)
qed

lemma peakHourFormatted_ok:
  "hourlyDistribution m \<noteq> [] \<Longrightarrow> \<exists>p. TransactionMetrics_peakHourFormatted m = Inr p"
  by (simp add: TransactionMetrics_peakHourFormatted_def TransactionMetrics_peakHour_def index_def)

section \<open>The volume-weighted exchange rate\<close>

text \<open>
  Claim C1 says that, for every transaction list, the volume-weighted exchange rate is
  \<open>\<Sum>(rate\<^sub>i * volume\<^sub>i) / \<Sum>(volume\<^sub>i)\<close> over the records in US dollars whose customer-facing
  amount is present and not zero, and that it is \<open>(2 * 50 + 3 * 100) / (50 + 100)\<close>, that
  is \<open>8 / 3\<close> or 2.667 to three decimals, on the two records 100 for 50 and 300 for 100.

  The constant \<^verbatim>\<open>volumeWeightedRate\<close> of \<^verbatim>\<open>ExchangeRateAnalysis\<close> has this value whenever
  \<^verbatim>\<open>created\<close> parses for every record that passes the filter, over the records whose
  amount is moreover not \<^verbatim>\<open>NaN\<close>, which the filter leaves out. The constant
  \<^verbatim>\<open>volumeWeightedExchangeRate\<close> of \<^verbatim>\<open>TransactionMetrics\<close> is another sum, over the payments
  whose customer-facing amount is truthy, in any currency, each weighted by its signed
  amount (\<open>payment_volumeWeightedRate\<close>), whenever \<^verbatim>\<open>new Date(created)\<close> is valid for every
  payment.
\<close>

theorem volume_weighted_rate:
  "((\<forall>t\<in>set ts. rateFilter t \<longrightarrow> parseISO L (created t) \<noteq> None) \<longrightarrow>
      ExchangeRateAnalysis_volumeWeightedRate L ts =
        Inr (spec_volumeWeightedRate (filter (\<lambda>t. customerFacingAmount t \<noteq> Some NaN) ts))) \<and>
   ((\<forall>t\<in>set ts. txn_type t = Some ''payment'' \<longrightarrow> newDate L (created t) \<noteq> None) \<longrightarrow>
      TransactionMetrics_volumeWeightedExchangeRate L ts = Inr (payment_volumeWeightedRate ts))"
  using exchange_rates_ok [of ts L] transaction_metrics_rate [of ts L] by blast

theorem volume_weighted_rate_witness:
  "ExchangeRateAnalysis_volumeWeightedRate sampleLibs [tx1, tx2] = Inr (Fin (8 / 3)) \<and>
   TransactionMetrics_volumeWeightedExchangeRate sampleLibs [tx1, tx2] = Inr (Fin (8 / 3)) \<and>
   \<bar>8 / 3 - 2667 / 1000\<bar> < (1 / 1000 :: rat)"
proof -
  have a: "\<forall>t\<in>set [tx1, tx2]. rateFilter t \<longrightarrow> parseISO sampleLibs (created t) \<noteq> None"
    by (simp add: sample_defs)
  have b: "\<forall>t\<in>set [tx1, tx2]. txn_type t = Some ''payment'' \<longrightarrow>
      newDate sampleLibs (created t) \<noteq> None"
    by (simp add: sample_defs)
  have c: "spec_volumeWeightedRate (filter (\<lambda>t. customerFacingAmount t \<noteq> Some NaN) [tx1, tx2]) =
      Fin (8 / 3)"
    by (simp add: spec_volumeWeightedRate_def spec_selected_def spec_rate_def spec_volume_def
        toNumber_def tx1_def tx2_def)
  have d: "payment_volumeWeightedRate [tx1, tx2] = Fin (8 / 3)"
    by (simp add: payment_volumeWeightedRate_def payment_selected_def spec_rate_def
        truthy_defs tx1_def tx2_def)
  from volume_weighted_rate [where ts = "[tx1, tx2]" and L = sampleLibs, THEN conjunct1, THEN mp, OF a]
    volume_weighted_rate [where ts = "[tx1, tx2]" and L = sampleLibs, THEN conjunct2, THEN mp, OF b]
    c d
  show ?thesis by simp
qed

text \<open>
  With the second record in euros the rate of the claim is \<open>2\<close>, from the first record
  alone, and \<^verbatim>\<open>TransactionMetrics\<close> answers \<open>8 / 3\<close>. On a record in US dollars whose
  \<^verbatim>\<open>created\<close> is not a date both components throw, where the formula of the claim is
  \<open>2\<close>. With an amount that is \<^verbatim>\<open>NaN\<close>, present and not zero, the formula of the claim is
  \<^verbatim>\<open>NaN\<close> and \<^verbatim>\<open>ExchangeRateAnalysis\<close> answers \<open>2\<close>.
\<close>

theorem volume_weighted_rate_counterexample:
  "TransactionMetrics_volumeWeightedExchangeRate sampleLibs [tx1, tx2_eur] = Inr (Fin (8 / 3)) \<and>
   spec_volumeWeightedRate [tx1, tx2_eur] = Fin 2 \<and>
   ExchangeRateAnalysis_volumeWeightedRate sampleLibs [tx1_soon] = Inl RangeError \<and>
   TransactionMetrics_volumeWeightedExchangeRate sampleLibs [tx1_soon] = Inl RangeError \<and>
   spec_volumeWeightedRate [tx1_soon] = Fin 2 \<and>
   ExchangeRateAnalysis_volumeWeightedRate sampleLibs [tx1, tx2_nan] = Inr (Fin 2) \<and>
   spec_volumeWeightedRate [tx1, tx2_nan] = NaN"
proof -
  have b: "\<forall>t\<in>set [tx1, tx2_eur]. txn_type t = Some ''payment'' \<longrightarrow>
      newDate sampleLibs (created t) \<noteq> None"
    by (simp add: sample_defs)
  have c: "spec_volumeWeightedRate [tx1, tx2_eur] = Fin 2"
    by (simp add: spec_volumeWeightedRate_def spec_selected_def spec_rate_def spec_volume_def
        toNumber_def tx1_def tx2_def tx2_eur_def)
  have d: "payment_volumeWeightedRate [tx1, tx2_eur] = Fin (8 / 3)"
    by (simp add: payment_volumeWeightedRate_def payment_selected_def spec_rate_def
        truthy_defs tx1_def tx2_def tx2_eur_def)
  have e: "ExchangeRateAnalysis_volumeWeightedRate sampleLibs [tx1_soon] = Inl RangeError"
    by (simp add: ExchangeRateAnalysis_volumeWeightedRate_def exchangeRates_def rateFilter_def
        exchangeRateOf_def format_def truthy_defs sample_defs)
  have f: "TransactionMetrics_volumeWeightedExchangeRate sampleLibs [tx1_soon] = Inl RangeError"
    by (simp add: TransactionMetrics_volumeWeightedExchangeRate_def TransactionMetrics_metrics_def
        metricsStep_def timeMetrics_def sample_defs)
  have g: "spec_volumeWeightedRate [tx1_soon] = Fin 2"
    by (simp add: spec_volumeWeightedRate_def spec_selected_def spec_rate_def spec_volume_def
        toNumber_def tx1_def tx1_soon_def)
  have h: "\<forall>t\<in>set [tx1, tx2_nan]. rateFilter t \<longrightarrow> parseISO sampleLibs (created t) \<noteq> None"
    by (simp add: sample_defs)
  have i: "spec_volumeWeightedRate
      (filter (\<lambda>t. customerFacingAmount t \<noteq> Some NaN) [tx1, tx2_nan]) = Fin 2"
    by (simp add: spec_volumeWeightedRate_def spec_selected_def spec_rate_def spec_volume_def
        toNumber_def tx1_def tx2_def tx2_nan_def)
  have j: "spec_volumeWeightedRate [tx1, tx2_nan] = NaN"
    by (simp add: spec_volumeWeightedRate_def spec_selected_def spec_rate_def spec_volume_def
        toNumber_def tx1_def tx2_def tx2_nan_def)
  from transaction_metrics_rate [OF b] exchange_rates_ok [OF h] c d e f g i j
  show ?thesis by simp
qed

section \<open>TransactionMetrics folds payments only\<close>

text \<open>
  Claim C9 says that, for every transaction list, \<^verbatim>\<open>TransactionMetrics\<close> folds only the
  payments, that \<open>totalTransactions\<close> counts them and that \<open>successRate\<close> is their
  share of the list.

  The reducer changes its accumulator only on a record whose type is \<^verbatim>\<open>'payment'\<close>.
  When \<^verbatim>\<open>new Date(created)\<close> is valid for every payment, the metrics over a list and over
  its payments alone are the same record, up to \<open>avgTransactionSize\<close> whose divisor is the
  length of the list (total volume, exchange rates, hourly and monthly distributions,
  processing times and size buckets take nothing from a payout), and \<open>totalTransactions\<close>
  is the number of payments. When the list moreover holds a payment, \<open>successRate\<close> is
  100 times the number of payments over the length of the list.
\<close>

theorem payments_only:
  "(\<forall>n acc t. txn_type t \<noteq> Some ''payment'' \<longrightarrow> metricsStep L n acc t = Inr acc) \<and>
   ((\<forall>t\<in>set ts. txn_type t = Some ''payment'' \<longrightarrow> newDate L (created t) \<noteq> None) \<longrightarrow>
      (\<exists>m y. TransactionMetrics_metrics L ts = Inr m \<and>
         TransactionMetrics_metrics L (filter (\<lambda>t. txn_type t = Some ''payment'') ts) =
           Inr (m\<lparr>avgTransactionSize := y\<rparr>) \<and>
         Metrics.totalTransactions m =
           length (filter (\<lambda>t. txn_type t = Some ''payment'') ts))) \<and>
   ((\<forall>t\<in>set ts. txn_type t = Some ''payment'' \<longrightarrow> newDate L (created t) \<noteq> None) \<and>
    (\<exists>t\<in>set ts. txn_type t = Some ''payment'') \<longrightarrow>
      TransactionMetrics_successRate L ts =
        Inr (num (length (filter (\<lambda>t. txn_type t = Some ''payment'') ts)) /
             num (length ts) * Fin 100))"
proof -
  let ?P = "\<lambda>t. txn_type t = Some ''payment''"
  let ?ok = "\<forall>t\<in>set ts. txn_type t = Some ''payment'' \<longrightarrow> newDate L (created t) \<noteq> None"
  have a: "\<forall>n acc t. txn_type t \<noteq> Some ''payment'' \<longrightarrow> metricsStep L n acc t = Inr acc"
    by (simp add: metricsStep_payout)
  have m: "\<exists>m. foldE (metricsStep L (length ts)) initialMetrics ts = Inr m" if ?ok
    using that by (intro foldE_ok metricsStep_ok) auto
  have b: "\<exists>m y. TransactionMetrics_metrics L ts = Inr m \<and>
        TransactionMetrics_metrics L (filter ?P ts) = Inr (m\<lparr>avgTransactionSize := y\<rparr>) \<and>
        Metrics.totalTransactions m = length (filter ?P ts)" if ok: ?ok
  proof -
    from m [OF ok] obtain m where m: "foldE (metricsStep L (length ts)) initialMetrics ts = Inr m" ..
    have "foldE (metricsStep L (length ts)) initialMetrics (filter ?P ts) = Inr m"
      using m by (simp add: foldE_filter_skip metricsStep_payout)
    from metrics_fold_avg [OF this, of "length (filter ?P ts)" "Fin 0"]
    obtain y where y: "foldE (metricsStep L (length (filter ?P ts))) initialMetrics (filter ?P ts) =
        Inr (m\<lparr>avgTransactionSize := y\<rparr>)"
      by auto
    from metrics_fold_weighted [OF m]
    have t: "Metrics.totalTransactions m = length (filter ?P ts)"
      by simp
    have "TransactionMetrics_metrics L ts = Inr m \<and>
        TransactionMetrics_metrics L (filter ?P ts) = Inr (m\<lparr>avgTransactionSize := y\<rparr>) \<and>
        Metrics.totalTransactions m = length (filter ?P ts)"
      using m y t by (simp add: TransactionMetrics_metrics_def)
    then show ?thesis by blast
  qed
  have c: "TransactionMetrics_successRate L ts =
      Inr (num (length (filter ?P ts)) / num (length ts) * Fin 100)"
    if ok: ?ok and p: "\<exists>t\<in>set ts. txn_type t = Some ''payment''"
  proof -
    from transaction_metrics_hourly [OF ok] obtain m
      where m: "TransactionMetrics_metrics L ts = Inr m"
        and h: "sum_list (map snd (hourlyDistribution m)) = length (filter ?P ts)"
      by blast
    from p have "filter ?P ts \<noteq> []" by (simp add: filter_empty_conv)
    with h have "hourlyDistribution m \<noteq> []" by auto
    from peakHourFormatted_ok [OF this] obtain q
      where q: "TransactionMetrics_peakHourFormatted m = Inr q" ..
    from m have "foldE (metricsStep L (length ts)) initialMetrics ts = Inr m"
      by (simp add: TransactionMetrics_metrics_def)
    from metrics_fold_weighted [OF this]
    have "Metrics.totalTransactions m = length (filter ?P ts)" by simp
    with m q show ?thesis by (simp add: TransactionMetrics_successRate_def)
  qed
  from a b c show ?thesis by blast
qed

theorem payments_only_witness:
  "metricsStep sampleLibs 2 initialMetrics tx2_payout = Inr initialMetrics \<and>
   TransactionMetrics_successRate sampleLibs [tx1, tx2_payout] = Inr (Fin 50) \<and>
   (\<exists>m y. TransactionMetrics_metrics sampleLibs [tx1, tx2_payout] = Inr m \<and>
      TransactionMetrics_metrics sampleLibs [tx1] = Inr (m\<lparr>avgTransactionSize := y\<rparr>) \<and>
      Metrics.totalTransactions m = 1)"
proof -
  have b: "\<forall>t\<in>set [tx1, tx2_payout]. txn_type t = Some ''payment'' \<longrightarrow>
      newDate sampleLibs (created t) \<noteq> None"
    by (simp add: sample_defs)
  have e: "\<exists>t\<in>set [tx1, tx2_payout]. txn_type t = Some ''payment''"
    by (simp add: tx1_def)
  have f: "filter (\<lambda>t. txn_type t = Some ''payment'') [tx1, tx2_payout] = [tx1]"
    by (simp add: tx1_def tx2_def tx2_payout_def)
  have p: "txn_type tx2_payout \<noteq> Some ''payment''"
    by (simp add: tx2_def tx2_payout_def)
  note c = payments_only [where ts = "[tx1, tx2_payout]" and L = sampleLibs]
  from c p have s: "metricsStep sampleLibs 2 initialMetrics tx2_payout = Inr initialMetrics"
    by blast
  from c b have m: "\<exists>m y. TransactionMetrics_metrics sampleLibs [tx1, tx2_payout] = Inr m \<and>
      TransactionMetrics_metrics sampleLibs [tx1] = Inr (m\<lparr>avgTransactionSize := y\<rparr>) \<and>
      Metrics.totalTransactions m = 1"
    unfolding f by simp
  from c b e have "TransactionMetrics_successRate sampleLibs [tx1, tx2_payout] =
      Inr (num (length [tx1]) / num (length [tx1, tx2_payout]) * Fin 100)"
    unfolding f by blast
  then have r: "TransactionMetrics_successRate sampleLibs [tx1, tx2_payout] = Inr (Fin 50)"
    by (simp add: num_def)
  from s r m show ?thesis by blast
qed

text \<open>
  On a list without a payment the hourly distribution is empty, \<^verbatim>\<open>peakHour\<close> is
  \<^verbatim>\<open>undefined\<close> and \<^verbatim>\<open>peakHour[0]\<close> throws before \<open>successRate\<close> is computed. On a
  payment whose \<^verbatim>\<open>created\<close> is not a date \<^verbatim>\<open>format\<close> throws inside the reducer. One
  payment out of two records gives a \<open>successRate\<close> of 50.
\<close>

theorem payments_only_counterexample:
  "TransactionMetrics_successRate sampleLibs [tx2_payout] = Inl TypeError \<and>
   TransactionMetrics_metrics sampleLibs [tx1_soon] = Inl RangeError \<and>
   TransactionMetrics_successRate sampleLibs [tx1_soon] = Inl RangeError \<and>
   TransactionMetrics_successRate sampleLibs [tx1, tx2_payout] = Inr (Fin 50)"
proof -
  have a: "TransactionMetrics_metrics sampleLibs [tx2_payout] = Inr initialMetrics"
    by (simp add: TransactionMetrics_metrics_def metricsStep_def tx2_def tx2_payout_def)
  have b: "TransactionMetrics_peakHourFormatted initialMetrics = Inl TypeError"
    by (simp add: TransactionMetrics_peakHourFormatted_def TransactionMetrics_peakHour_def
        initialMetrics_def index_def sort_by_def)
  have c: "TransactionMetrics_metrics sampleLibs [tx1_soon] = Inl RangeError"
    by (simp add: TransactionMetrics_metrics_def metricsStep_def timeMetrics_def sample_defs)
  have ok: "\<forall>t\<in>set [tx1, tx2_payout]. txn_type t = Some ''payment'' \<longrightarrow>
      newDate sampleLibs (created t) \<noteq> None"
    by (simp add: sample_defs)
  from transaction_metrics_hourly [OF ok] obtain m
    where m: "TransactionMetrics_metrics sampleLibs [tx1, tx2_payout] = Inr m"
      and h: "sum_list (map snd (hourlyDistribution m)) =
        length (filter (\<lambda>t. txn_type t = Some ''payment'') [tx1, tx2_payout])"
    by blast
  have f: "filter (\<lambda>t. txn_type t = Some ''payment'') [tx1, tx2_payout] = [tx1]"
    by (simp add: tx1_def tx2_def tx2_payout_def)
  from h have "hourlyDistribution m \<noteq> []" unfolding f by auto
  from peakHourFormatted_ok [OF this] obtain q
    where q: "TransactionMetrics_peakHourFormatted m = Inr q" ..
  from m have "foldE (metricsStep sampleLibs (length [tx1, tx2_payout])) initialMetrics
      [tx1, tx2_payout] = Inr m"
    by (simp only: TransactionMetrics_metrics_def)
  from metrics_fold_weighted [OF this]
  have "Metrics.totalTransactions m = 1" unfolding f by simp
  with m q have d: "TransactionMetrics_successRate sampleLibs [tx1, tx2_payout] = Inr (Fin 50)"
    by (simp add: TransactionMetrics_successRate_def num_def)
  from a b c d show ?thesis by (simp add: TransactionMetrics_successRate_def)
qed

section \<open>The bucket rules\<close>

text \<open>
  Claim C6 says that a record falls into the first bucket whose upper bound it is strictly
  less than, for the value segments and for the processing-time buckets alike, and that a
  record matching no bucket is dropped.

  For the value segments this is what the code does. On segments with the ranges of the
  source, \<open>categorize\<close> adds the record to the first segment whose upper bound is strictly
  greater than its amount, count and volume, and to no other; an amount that is below no
  upper bound (\<^verbatim>\<open>Infinity\<close>) leaves every segment as it was. So after all the records the
  count of a segment is the number of records whose first such segment it is.

  The processing-time buckets have inclusive bounds, \<^verbatim>\<open>time <= i\<close>, as their labels
  \<^verbatim>\<open>\<le> 5 min\<close> say, and a time beyond the last bound (or \<^verbatim>\<open>NaN\<close>) is counted under
  \<^verbatim>\<open>'More'\<close>: every bar of the chart counts the times whose interval it is, and no time
  is dropped.
\<close>

theorem bucket_rules:
  "(map srange segs = map srange segments \<longrightarrow>
      categorize segs t =
        (case spec_segmentIndex (segmentAmount t) of
           None \<Rightarrow> segs
         | Some j \<Rightarrow>
             segs[j := (segs ! j)\<lparr>ValueSegment.count := ValueSegment.count (segs ! j) + 1,
                     ValueSegment.volume := ValueSegment.volume (segs ! j) + segmentAmount t\<rparr>])) \<and>
   map srange (ValueSegmentation_segments ts) = map srange segments \<and>
   (\<forall>j<5. ValueSegment.count (ValueSegmentation_segments ts ! j) =
            length (filter (\<lambda>t. spec_segmentIndex (segmentAmount t) = Some j) ts) \<and>
          ValueSegment.volume (ValueSegmentation_segments ts ! j) =
            sum_list (map segmentAmount
              (filter (\<lambda>t. spec_segmentIndex (segmentAmount t) = Some j) ts))) \<and>
   intervalOf time =
     (if js_le time (Fin 5) then IvNum 5 else if js_le time (Fin 15) then IvNum 15
      else if js_le time (Fin 30) then IvNum 30 else if js_le time (Fin 60) then IvNum 60
      else if js_le time (Fin 120) then IvNum 120 else IvStr ''More'') \<and>
   distributionData tms = map (\<lambda>i. length (filter (\<lambda>x. intervalOf x = i) tms)) intervals \<and>
   sum_list (distributionData tms) = length tms"
proof -
  have a: "categorize segs t =
      (case spec_segmentIndex (segmentAmount t) of
         None \<Rightarrow> segs
       | Some j \<Rightarrow>
           segs[j := (segs ! j)\<lparr>ValueSegment.count := ValueSegment.count (segs ! j) + 1,
                   ValueSegment.volume := ValueSegment.volume (segs ! j) + segmentAmount t\<rparr>])"
    if "map srange segs = map srange segments"
    using that by (rule categorize_bucket)
  have b: "map srange (ValueSegmentation_segments ts) = map srange segments"
    by (simp add: ValueSegmentation_segments_def segments_fold_srange)
  have c: "ValueSegment.count (ValueSegmentation_segments ts ! j) =
        length (filter (\<lambda>t. spec_segmentIndex (segmentAmount t) = Some j) ts) \<and>
      ValueSegment.volume (ValueSegmentation_segments ts ! j) =
        sum_list (map segmentAmount
          (filter (\<lambda>t. spec_segmentIndex (segmentAmount t) = Some j) ts))"
    if j: "j < 5" for j
  proof -
    from j consider "j = 0" | "j = 1" | "j = 2" | "j = 3" | "j = 4" by linarith
    then have z: "ValueSegment.count (segments ! j) = 0 \<and> ValueSegment.volume (segments ! j) = Fin 0"
      by cases (simp_all add: segments_def)
    from segments_fold_nth [OF refl j, of ts] z show ?thesis
      by (simp add: ValueSegmentation_segments_def)
  qed
  from a b c intervalOf_chain [of time] distributionData_counts [of tms]
    distributionData_total [of tms]
  show ?thesis by blast
qed

theorem bucket_rules_witness:
  "spec_segmentIndex (segmentAmount tx2) = Some 1 \<and>
   categorize segments tx2 =
     segments[1 := (segments ! 1)\<lparr>ValueSegment.count := 1, ValueSegment.volume := Fin 100\<rparr>] \<and>
   categorize segments (tx2\<lparr>customerFacingAmount := Some PInf\<rparr>) = segments \<and>
   ValueSegment.count (ValueSegmentation_segments [tx1, tx2] ! 1) = 1 \<and>
   ValueSegment.volume (ValueSegmentation_segments [tx1, tx2] ! 1) = Fin 100 \<and>
   intervalOf (Fin 121) = IvStr ''More'' \<and>
   distributionData [Fin 5, Fin 121, NaN] = [1, 0, 0, 0, 0, 2]"
proof -
  have a1: "segmentAmount tx1 = Fin 50"
    by (simp add: segmentAmount_def or_num_def truthy_num_def tx1_def)
  have a2: "segmentAmount tx2 = Fin 100"
    by (simp add: segmentAmount_def or_num_def truthy_num_def tx2_def)
  have a3: "segmentAmount (tx2\<lparr>customerFacingAmount := Some PInf\<rparr>) = PInf"
    by (simp add: segmentAmount_def or_num_def truthy_num_def)
  have u: "[0..<5] = [0, 1, 2, 3, 4]"
    by (simp add: upt_rec)
  have i1: "spec_segmentIndex (Fin 50) = Some 0"
    by (simp add: spec_segmentIndex_def length_segments u) (simp add: segments_def)
  have i2: "spec_segmentIndex (Fin 100) = Some 1"
    by (simp add: spec_segmentIndex_def length_segments u) (simp add: segments_def)
  have i3: "spec_segmentIndex PInf = None"
    by (simp add: spec_segmentIndex_def length_segments u js_lt_PInf)
  have one: "(1::nat) < 5" by simp
  note w = bucket_rules [where segs = segments and ts = "[tx1, tx2]" and time = "Fin 121"
      and tms = "[Fin 5, Fin 121, NaN]"]
  have c1: "categorize segments tx2 =
      segments[1 := (segments ! 1)\<lparr>ValueSegment.count := 1, ValueSegment.volume := Fin 100\<rparr>]"
    using w [where t = tx2, THEN conjunct1] by (simp add: a2 i2 segments_def)
  have c2: "categorize segments (tx2\<lparr>customerFacingAmount := Some PInf\<rparr>) = segments"
    using w [where t = "tx2\<lparr>customerFacingAmount := Some PInf\<rparr>", THEN conjunct1]
    by (simp add: a3 i3)
  from w [where t = tx2] one
  have c3: "ValueSegment.count (ValueSegmentation_segments [tx1, tx2] ! 1) =
        length (filter (\<lambda>t. spec_segmentIndex (segmentAmount t) = Some 1) [tx1, tx2]) \<and>
      ValueSegment.volume (ValueSegmentation_segments [tx1, tx2] ! 1) =
        sum_list (map segmentAmount
          (filter (\<lambda>t. spec_segmentIndex (segmentAmount t) = Some 1) [tx1, tx2]))"
    by blast
  have c4: "ValueSegment.count (ValueSegmentation_segments [tx1, tx2] ! 1) = 1 \<and>
      ValueSegment.volume (ValueSegmentation_segments [tx1, tx2] ! 1) = Fin 100"
    using c3 by (simp add: a1 a2 i1 i2)
  have iv: "intervalOf (Fin 5) = IvNum 5" "intervalOf (Fin 121) = IvStr ''More''"
    "intervalOf NaN = IvStr ''More''"
    by (simp_all add: intervalOf_chain js_le_def)
  from w [where t = tx2]
  have "distributionData [Fin 5, Fin 121, NaN] =
      map (\<lambda>i. length (filter (\<lambda>x. intervalOf x = i) [Fin 5, Fin 121, NaN])) intervals"
    by blast
  then have c5: "distributionData [Fin 5, Fin 121, NaN] = [1, 0, 0, 0, 0, 2]"
    by (simp add: iv intervals_def)
  from c1 c2 c4 c5 iv(2) a2 i2 show ?thesis by simp
qed

text \<open>
  A processing time of exactly 5 minutes is counted under \<^verbatim>\<open>\<le> 5 min\<close>; the first bound
  it is strictly less than is 15.
\<close>

theorem bucket_rules_counterexample:
  "intervalOf (Fin 5) = IvNum 5 \<and> spec_intervalOf (Fin 5) = Some (IvNum 15) \<and>
   spec_intervalOf (Fin 5) \<noteq> Some (intervalOf (Fin 5)) \<and>
   distributionData [Fin 5] = [1, 0, 0, 0, 0, 0]"
proof -
  have a: "intervalOf (Fin 5) = IvNum 5"
    by (simp add: intervalOf_chain js_le_def)
  have b: "spec_intervalOf (Fin 5) = Some (IvNum 15)"
    by (simp add: spec_intervalOf_def intervals_def)
  have c: "distributionData [Fin 5] = [1, 0, 0, 0, 0, 0]"
    by (simp add: distributionData_counts a intervals_def)
  from a b c show ?thesis by simp
qed

section \<open>Latency of a record without dates\<close>




section \<open>Partition completeness\<close>

lemma dailyGroups_counts:
  assumes "\<forall>t\<in>set ts. parseISO L (created t) \<noteq> None"
  shows "\<exists>gs. dailyGroups L ts = Inr gs \<and>
           sum_list (map (\<lambda>kv. length (group_times (snd kv))) gs) =
           length (filter (\<lambda>t. js_gt (calculateProcessingTime L t) (Fin 0)) ts)"
proof -
  from dailyGroups_times [OF assms] obtain gs where g: "dailyGroups L ts = Inr gs"
    and m: "mset (concat (map (\<lambda>kv. group_times (snd kv)) gs)) =
      mset (filter (\<lambda>x. js_gt x (Fin 0)) (map (calculateProcessingTime L) ts))"
    by blast
  from m have "length (concat (map (\<lambda>kv. group_times (snd kv)) gs)) =
      length (filter (\<lambda>x. js_gt x (Fin 0)) (map (calculateProcessingTime L) ts))"
    by (rule mset_eq_length)
  then have "sum_list (map (\<lambda>kv. length (group_times (snd kv))) gs) =
      length (filter (\<lambda>t. js_gt (calculateProcessingTime L t) (Fin 0)) ts)"
    by (simp add: length_concat comp_def filter_map)
  with g show ?thesis by blast
qed

text \<open>
  Claim C4 says that, for every non-empty transaction list, the counts of the groups of
  every grouping add up to the number of records, given exhaustive buckets.

  The groupings by time format \<^verbatim>\<open>created\<close> and throw when it does not parse. When
  every \<^verbatim>\<open>created\<close> parses (and \<^verbatim>\<open>format\<close> names the weekdays in English) and every
  amount falls in a value segment (every amount but \<^verbatim>\<open>Infinity\<close> does, by
  \<open>segments_exhaustive\<close>), the counts add up to the number of records for the value
  segments, the currencies, the weekdays, the days of \<^verbatim>\<open>TransactionChart\<close>, the hours of
  \<^verbatim>\<open>TransactionVelocity\<close> and the months of \<^verbatim>\<open>MonthlyVolumeTrends\<close>. Two groupings
  count a part of the records. The groups of \<^verbatim>\<open>calculateDailyMetrics\<close> hold the
  latencies greater than 0, and the count of a day is the number of its times: the counts
  add up to the number of records with such a latency. The hourly distribution of
  \<^verbatim>\<open>TransactionMetrics\<close> groups the payments: when \<^verbatim>\<open>new Date(created)\<close> is valid for
  every payment, its counts add up to the number of payments.
\<close>

theorem partition_completeness:
  assumes "ts \<noteq> []"
    and "\<forall>t\<in>set ts. \<exists>ms. parseISO L (created t) = Some ms \<and> fmt L ''EEEE'' ms \<in> set weekdays"
    and "\<forall>t\<in>set ts. \<exists>s\<in>set segments. inSegment (segmentAmount t) s"
  shows "ValueSegmentation_totalTransactions ts = length ts \<and>
         CurrencyDistributionChart_totalCount L ts = length ts \<and>
         WeekdayAnalysis_totalTransactions L ts = Inr (length ts) \<and>
         TransactionChart_totalCount L ts = Inr (length ts) \<and>
         (\<exists>v. TransactionVelocity L ts = Inr v \<and> Velocity.totalTransactions v = length ts) \<and>
         (\<exists>md. monthlyData L ts = Inr md \<and>
            sum_list (map (\<lambda>kv. MonthlyMetrics.count (snd kv)) md) = length ts) \<and>
         (\<exists>gs. dailyGroups L ts = Inr gs \<and>
            sum_list (map (\<lambda>kv. length (group_times (snd kv))) gs) =
            length (filter (\<lambda>t. js_gt (calculateProcessingTime L t) (Fin 0)) ts)) \<and>
         ((\<forall>t\<in>set ts. txn_type t = Some ''payment'' \<longrightarrow> newDate L (created t) \<noteq> None) \<longrightarrow>
            (\<exists>m. TransactionMetrics_metrics L ts = Inr m \<and>
               sum_list (map snd (hourlyDistribution m)) =
               length (filter (\<lambda>t. txn_type t = Some ''payment'') ts)))"
proof -
  from assms(2) have d: "\<forall>t\<in>set ts. parseISO L (created t) \<noteq> None" by auto
  from monthlyData_counts [OF d] have m: "\<exists>md. monthlyData L ts = Inr md \<and>
      sum_list (map (\<lambda>kv. MonthlyMetrics.count (snd kv)) md) = length ts"
    by auto
  have h: "\<exists>m. TransactionMetrics_metrics L ts = Inr m \<and>
      sum_list (map snd (hourlyDistribution m)) =
      length (filter (\<lambda>t. txn_type t = Some ''payment'') ts)"
    if "\<forall>t\<in>set ts. txn_type t = Some ''payment'' \<longrightarrow> newDate L (created t) \<noteq> None"
    using that by (rule transaction_metrics_hourly)
  from ValueSegmentation_total [OF assms(3)] CurrencyDistributionChart_total [of L ts]
    WeekdayAnalysis_total [OF assms(2)] TransactionChart_total [OF d]
    TransactionVelocity_total [OF assms(1) d] m h dailyGroups_counts [OF d]
  show ?thesis by blast
qed

theorem partition_completeness_witness:
  "ValueSegmentation_totalTransactions [tx1, tx2_payout] = 2 \<and>
   CurrencyDistributionChart_totalCount sampleLibs [tx1, tx2_payout] = 2 \<and>
   WeekdayAnalysis_totalTransactions sampleLibs [tx1, tx2_payout] = Inr 2 \<and>
   TransactionChart_totalCount sampleLibs [tx1, tx2_payout] = Inr 2 \<and>
   (\<exists>v. TransactionVelocity sampleLibs [tx1, tx2_payout] = Inr v \<and>
      Velocity.totalTransactions v = 2) \<and>
   (\<exists>md. monthlyData sampleLibs [tx1, tx2_payout] = Inr md \<and>
      sum_list (map (\<lambda>kv. MonthlyMetrics.count (snd kv)) md) = 2) \<and>
   (\<exists>gs. dailyGroups sampleLibs [tx1, tx2_payout] = Inr gs \<and>
      sum_list (map (\<lambda>kv. length (group_times (snd kv))) gs) = 2) \<and>
   (\<exists>m. TransactionMetrics_metrics sampleLibs [tx1, tx2_payout] = Inr m \<and>
      sum_list (map snd (hourlyDistribution m)) = 1)"
proof -
  have a: "[tx1, tx2_payout] \<noteq> []" by simp
  have b: "\<forall>t\<in>set [tx1, tx2_payout]. \<exists>ms. parseISO sampleLibs (created t) = Some ms \<and>
      fmt sampleLibs ''EEEE'' ms \<in> set weekdays"
    by (simp add: sample_defs weekdays_def)
  have "\<exists>s\<in>set segments. inSegment (segmentAmount tx1) s"
    by (rule segments_exhaustive) (simp_all add: tx1_def)
  moreover have "\<exists>s\<in>set segments. inSegment (segmentAmount tx2_payout) s"
    by (rule segments_exhaustive) (simp_all add: tx2_def tx2_payout_def)
  ultimately have c: "\<forall>t\<in>set [tx1, tx2_payout]. \<exists>s\<in>set segments. inSegment (segmentAmount t) s"
    by simp
  have d: "\<forall>t\<in>set [tx1, tx2_payout]. txn_type t = Some ''payment'' \<longrightarrow>
      newDate sampleLibs (created t) \<noteq> None"
    by (simp add: sample_defs)
  have f: "filter (\<lambda>t. txn_type t = Some ''payment'') [tx1, tx2_payout] = [tx1]"
    by (simp add: tx1_def tx2_def tx2_payout_def)
  have g: "calculateProcessingTime sampleLibs tx1 = Fin 30"
    "calculateProcessingTime sampleLibs tx2_payout = Fin 5"
    by (simp_all add: calculateProcessingTime_def differenceInMinutes_def differenceIn_def
        trunc_div_def truthy_str_def sample_defs)
  from partition_completeness [OF a b c] d show ?thesis
    unfolding f by (simp add: numeral_2_eq_2 g js_gt_def)
qed

text \<open>
  On a record whose \<^verbatim>\<open>created\<close> is not a date the grouping by day throws. Of a
  payment and a payout, the hourly distribution of \<^verbatim>\<open>TransactionMetrics\<close> counts one.
  The record without \<^verbatim>\<open>availableOn\<close> makes a group of \<^verbatim>\<open>calculateDailyMetrics\<close> that
  holds no time.
\<close>

theorem partition_completeness_counterexample:
  "TransactionChart_totalCount sampleLibs [tx1_soon] = Inl RangeError \<and>
   length [tx1, tx2_payout] = 2 \<and>
   (\<exists>m. TransactionMetrics_metrics sampleLibs [tx1, tx2_payout] = Inr m \<and>
      sum_list (map snd (hourlyDistribution m)) = 1) \<and>
   dailyGroups sampleLibs [tx1_unavailable] =
     Inr [(''Jan 07'', \<lparr>group_times = [], group_date = ''Jan 07''\<rparr>)]"
proof -
  have a: "TransactionChart_totalCount sampleLibs [tx1_soon] = Inl RangeError"
    by (simp add: TransactionChart_totalCount_def sortedDays_def dailyStep_def format_def
        sample_defs)
  have d: "\<forall>t\<in>set [tx1, tx2_payout]. txn_type t = Some ''payment'' \<longrightarrow>
      newDate sampleLibs (created t) \<noteq> None"
    by (simp add: sample_defs)
  have f: "filter (\<lambda>t. txn_type t = Some ''payment'') [tx1, tx2_payout] = [tx1]"
    by (simp add: tx1_def tx2_def tx2_payout_def)
  have g: "dailyGroups sampleLibs [tx1_unavailable] =
      Inr [(''Jan 07'', \<lparr>group_times = [], group_date = ''Jan 07''\<rparr>)]"
    by (simp add: dailyGroups_def format_def upsert_def calculateProcessingTime_def
        truthy_str_def js_gt_def sample_defs)
  from transaction_metrics_hourly [OF d] a g show ?thesis
    unfolding f by simp
qed

end
